theory Spec2Isabelle
  imports Complex_Main "HOL-Library.Multiset"
begin

section \<open>Common notions\<close>

text \<open>
  The three loops of the assistant (the activation wait, the capture session and the
  reminder checker) run until their environment makes them stop. Each is modelled as a
  recursion over the list of what the environment delivers, one element per iteration
  (a poll of the flags, an audio frame, a scheduler cycle). When the list is used up
  and the loop has not returned, the loop is still running: the outcome is
  \<open>Pending\<close>. \<open>Returns v\<close> is a \<^verbatim>\<open>return v\<close> of the source.
\<close>

datatype 'a outcome = Returns 'a | Pending

section \<open>Activation: \<^verbatim>\<open>src/modules/activation.py\<close>\<close>

text \<open>
  The strings \<^verbatim>\<open>'button'\<close>, \<^verbatim>\<open>'wake_word'\<close>, \<^verbatim>\<open>'timeout'\<close>, \<^verbatim>\<open>'auto'\<close> and
  \<^verbatim>\<open>'interrupted'\<close> that \<^verbatim>\<open>wait_for_activation\<close> returns.
\<close>

datatype activation = Button | Wake_word | Timeout | Auto | Interrupted

text \<open>The fields of \<^verbatim>\<open>ActivationManager\<close> that \<^verbatim>\<open>wait_for_activation\<close> reads and writes.\<close>

record activation_manager =
  gpio_enabled :: bool
  wake_word_enabled :: bool
  button_pressed :: bool
  wake_word_detected :: bool

text \<open>
  What the environment does in one iteration of the polling loop: whether the GPIO
  callback \<^verbatim>\<open>_button_callback\<close> ran and whether a \<^verbatim>\<open>_wake_word_listener\<close> thread set its flag
  before the flags are read, the value \<^verbatim>\<open>time.time()\<close> returns at the timeout check, and
  whether a \<^verbatim>\<open>KeyboardInterrupt\<close> arrives while the iteration sleeps. Clock readings are
  exact reals: the rounding of the float subtraction is not modelled.
\<close>

record poll =
  button_event :: bool
  wake_event :: bool
  clock :: real
  keyboard_interrupt :: bool

text \<open>What a call does besides returning: the calls it makes that a caller can observe.\<close>

datatype effect = Led_waiting | Wake_thread_started | Slept

text \<open>
  The test \<^verbatim>\<open>if timeout and (time.time() - start_time) > timeout\<close>: a timeout that is
  \<^verbatim>\<open>None\<close> or zero is falsy in Python, so the comparison is not made.
\<close>

definition timed_out :: "real option \<Rightarrow> real \<Rightarrow> real \<Rightarrow> bool" where
  "timed_out timeout start_time now =
     (case timeout of None \<Rightarrow> False | Some t \<Rightarrow> t \<noteq> 0 \<and> now - start_time > t)"

text \<open>
  One iteration of \<^verbatim>\<open>while True\<close> in \<^verbatim>\<open>wait_for_activation\<close>, in the order of the source:
  the button flag, the wake word flag, the timeout, then \<^verbatim>\<open>time.sleep(0.1)\<close>. \<open>None\<close> is
  "go round again".
\<close>

definition poll_cycle ::
  "activation_manager \<Rightarrow> real option \<Rightarrow> real \<Rightarrow> poll \<Rightarrow> activation option \<times> activation_manager" where
  "poll_cycle m timeout start_time p =
     (let m1 = m\<lparr>button_pressed := button_pressed m \<or> button_event p,
                 wake_word_detected := wake_word_detected m \<or> wake_event p\<rparr>
      in if button_pressed m1 then (Some Button, m1\<lparr>button_pressed := False\<rparr>)
         else if wake_word_detected m1 then (Some Wake_word, m1\<lparr>wake_word_detected := False\<rparr>)
         else if timed_out timeout start_time (clock p) then (Some Timeout, m1)
         else if keyboard_interrupt p then (Some Interrupted, m1)
         else (None, m1))"

fun wait_loop ::
  "activation_manager \<Rightarrow> real option \<Rightarrow> real \<Rightarrow> poll list \<Rightarrow>
     activation outcome \<times> activation_manager \<times> effect list" where
  "wait_loop m timeout start_time [] = (Pending, m, [])"
| "wait_loop m timeout start_time (p # ps) =
     (case poll_cycle m timeout start_time p of
        (Some a, m') \<Rightarrow> (Returns a, m', [])
      | (None, m') \<Rightarrow>
          (case wait_loop m' timeout start_time ps of
             (r, m'', es) \<Rightarrow> (r, m'', Slept # es)))"

text \<open>
  \<^verbatim>\<open>wait_for_activation(stt_engine, timeout)\<close>. \<open>stt_engine\<close> says whether an engine was
  passed; \<open>start_time\<close> is the clock reading of the first line. The result is what is
  returned, the manager afterwards, and the observable calls in order.
\<close>

definition wait_for_activation ::
  "activation_manager \<Rightarrow> bool \<Rightarrow> real option \<Rightarrow> real \<Rightarrow> poll list \<Rightarrow>
     activation outcome \<times> activation_manager \<times> effect list" where
  "wait_for_activation m stt_engine timeout start_time polls =
     (if \<not> gpio_enabled m \<and> \<not> wake_word_enabled m then (Returns Auto, m, [])
      else (case wait_loop m timeout start_time polls of
              (r, m', es) \<Rightarrow>
                (r, m', Led_waiting #
                   (if wake_word_enabled m \<and> stt_engine then [Wake_thread_started] else []) @ es)))"

text \<open>
  An iteration in which nothing happens: no callback, no wake word, the timeout test is
  false and no interrupt arrives. A notion of the statements below, not of the source.
\<close>

definition quiet :: "real option \<Rightarrow> real \<Rightarrow> poll \<Rightarrow> bool" where
  "quiet timeout start_time p \<longleftrightarrow>
     \<not> button_event p \<and> \<not> wake_event p \<and>
     \<not> timed_out timeout start_time (clock p) \<and> \<not> keyboard_interrupt p"

section \<open>Capture session: \<^verbatim>\<open>src/modules/stt.py\<close>\<close>

text \<open>
  A Python \<^verbatim>\<open>str\<close> is a sequence of Unicode code points; a code point is a natural
  number. The empty string is the only falsy one.
\<close>

type_synonym ustr = "nat list"

text \<open>
  What the recognizer says about one block of audio taken from the queue:
  \<^verbatim>\<open>AcceptWaveform\<close> returned true and \<^verbatim>\<open>Result()\<close> holds this text (\<open>Final\<close>), or it
  returned false and \<^verbatim>\<open>PartialResult()\<close> holds this partial text (\<open>Partial\<close>). A missing
  key reads as the empty text, as \<^verbatim>\<open>dict.get\<close> does. \<open>Source_error\<close> is an exception
  raised inside the \<^verbatim>\<open>try\<close> block while this block is awaited or processed; a stream
  that cannot be opened is a \<open>Source_error\<close> in the first place.
\<close>

datatype frame = Final ustr | Partial ustr | Source_error

text \<open>
  The two frame counts of \<^verbatim>\<open>listen\<close> are values of Python's number arithmetic:
  \<^verbatim>\<open>int(silence_timeout * sample_rate / chunk_size)\<close> and, for a truthy timeout,
  \<^verbatim>\<open>int(timeout * sample_rate / chunk_size)\<close>. The product and the true division are
  carried out on floats, with their rounding, and \<^verbatim>\<open>int\<close> truncates the rounded
  quotient; that arithmetic is not modelled. A \<open>chunk_count\<close> is what one of the two
  computations gives: the integer, or an exception (a \<^verbatim>\<open>ZeroDivisionError\<close> when
  \<^verbatim>\<open>chunk_size\<close> is zero, for one).
\<close>

datatype chunk_count = Chunks int | Chunks_error

text \<open>
  Python's truth test of the argument \<^verbatim>\<open>timeout\<close> (\<^verbatim>\<open>if timeout:\<close>): \<^verbatim>\<open>None\<close> and zero are
  falsy. \<open>max_chunks timeout c\<close> is the value of \<^verbatim>\<open>max_chunks\<close> when the loop starts, \<open>c\<close>
  being the count computed for a truthy timeout: it stays \<^verbatim>\<open>None\<close> for a falsy one.
\<close>

definition truthy :: "real option \<Rightarrow> bool" where
  "truthy timeout \<longleftrightarrow> timeout \<noteq> None \<and> timeout \<noteq> Some 0"

definition max_chunks :: "real option \<Rightarrow> int \<Rightarrow> int option" where
  "max_chunks timeout c = (if truthy timeout then Some c else None)"

text \<open>
  The two tests at the end of the loop body: \<^verbatim>\<open>silence_chunks >= max_silence_chunks\<close>, and
  \<^verbatim>\<open>max_chunks and recorded_chunks >= max_chunks\<close> (a \<^verbatim>\<open>max_chunks\<close> of zero is falsy).
\<close>

definition stop_check :: "int \<Rightarrow> int option \<Rightarrow> int \<Rightarrow> int \<Rightarrow> bool" where
  "stop_check max_silence max_rec silence_chunks recorded_chunks \<longleftrightarrow>
     silence_chunks \<ge> max_silence \<or>
     (case max_rec of None \<Rightarrow> False | Some c \<Rightarrow> c \<noteq> 0 \<and> recorded_chunks \<ge> c)"

text \<open>
  How the \<^verbatim>\<open>while True\<close> loop of \<^verbatim>\<open>listen\<close> ends: with a \<^verbatim>\<open>return\<close> of a final text, with a
  \<^verbatim>\<open>break\<close> (the values of \<^verbatim>\<open>silence_chunks\<close> and \<^verbatim>\<open>recorded_chunks\<close> at that moment are kept),
  with an exception, or not yet: it is blocked in \<^verbatim>\<open>audio_queue.get()\<close>.
\<close>

datatype loop_exit = Text ustr | Broke int int | Raised | Waiting

fun listen_loop :: "int \<Rightarrow> int option \<Rightarrow> int \<Rightarrow> int \<Rightarrow> frame list \<Rightarrow> loop_exit" where
  "listen_loop ms mc s r [] = Waiting"
| "listen_loop ms mc s r (Source_error # fs) = Raised"
| "listen_loop ms mc s r (Final t # fs) =
     (if t \<noteq> [] then Text t
      else if stop_check ms mc (s + 1) (r + 1) then Broke (s + 1) (r + 1)
      else listen_loop ms mc (s + 1) (r + 1) fs)"
| "listen_loop ms mc s r (Partial p # fs) =
     (let s' = (if p \<noteq> [] then 0 else s + 1)
      in if stop_check ms mc s' (r + 1) then Broke s' (r + 1)
         else listen_loop ms mc s' (r + 1) fs)"

text \<open>
  What \<^verbatim>\<open>listen\<close> returns once the loop has ended. \<open>final_text\<close> is the text of
  \<^verbatim>\<open>FinalResult()\<close>, asked for after a \<^verbatim>\<open>break\<close>. The handler turns every exception into
  \<^verbatim>\<open>None\<close>.
\<close>

definition listen_result :: "loop_exit \<Rightarrow> ustr \<Rightarrow> ustr option outcome" where
  "listen_result e final_text =
     (case e of
        Text t \<Rightarrow> Returns (Some t)
      | Broke s r \<Rightarrow> if final_text \<noteq> [] then Returns (Some final_text) else Returns None
      | Raised \<Rightarrow> Returns None
      | Waiting \<Rightarrow> Pending)"

text \<open>
  \<^verbatim>\<open>listen(timeout)\<close>. \<open>silence_value\<close> is what the computation of \<^verbatim>\<open>max_silence_chunks\<close>
  gives and \<open>timeout_value\<close> what the computation of \<^verbatim>\<open>max_chunks\<close> gives; the second is
  carried out only for a truthy timeout. Both stand inside the \<^verbatim>\<open>try\<close> block, before the
  loop.
\<close>

definition listen ::
  "chunk_count \<Rightarrow> real option \<Rightarrow> chunk_count \<Rightarrow> frame list \<Rightarrow> ustr \<Rightarrow> ustr option outcome"
  where
  "listen silence_value timeout timeout_value frames final_text =
     (case silence_value of
        Chunks_error \<Rightarrow> Returns None
      | Chunks max_silence_chunks \<Rightarrow>
          if truthy timeout then
            (case timeout_value of
               Chunks_error \<Rightarrow> Returns None
             | Chunks c \<Rightarrow>
                 listen_result (listen_loop max_silence_chunks (Some c) 0 0 frames) final_text)
          else listen_result (listen_loop max_silence_chunks None 0 0 frames) final_text)"

text \<open>
  Notions of the statements below. \<open>silence_count s fs\<close> is the value of
  \<^verbatim>\<open>silence_chunks\<close> after the loop has gone through the frames \<open>fs\<close> from the value \<open>s\<close>
  without ending. \<open>speechless fs\<close>: no frame of \<open>fs\<close> is a final result with text, and none
  is an error. \<open>stops\<close>: after frames without final text, one of the two \<^verbatim>\<open>break\<close> tests
  holds.
\<close>

fun silence_step :: "int \<Rightarrow> frame \<Rightarrow> int" where
  "silence_step s (Partial p) = (if p \<noteq> [] then 0 else s + 1)"
| "silence_step s (Final t) = s + 1"
| "silence_step s Source_error = s"

definition silence_count :: "int \<Rightarrow> frame list \<Rightarrow> int" where
  "silence_count s fs = foldl silence_step s fs"

definition speechless :: "frame list \<Rightarrow> bool" where
  "speechless fs \<longleftrightarrow> (\<forall>f \<in> set fs. f = Final [] \<or> (\<exists>p. f = Partial p))"

definition stops :: "int \<Rightarrow> int option \<Rightarrow> int \<Rightarrow> int \<Rightarrow> frame list \<Rightarrow> bool" where
  "stops ms mc s r fs \<longleftrightarrow>
     speechless fs \<and> stop_check ms mc (silence_count s fs) (r + int (length fs))"

section \<open>Reminder store: \<^verbatim>\<open>src/services/reminders.py\<close>\<close>

text \<open>
  A naive \<^verbatim>\<open>datetime\<close> is a point of the proleptic Gregorian calendar with microsecond
  resolution: here the number of microseconds since \<^verbatim>\<open>datetime.min\<close>, 0001-01-01 00:00.
  The store keeps \<^verbatim>\<open>isoformat()\<close> strings and SQLite compares them as text; fields of
  fixed width make that order the order of the instants, so the column holds the instant.
\<close>

type_synonym datetime = nat

text \<open>The exceptions of the modelled code; \<open>Db_error\<close> is any \<^verbatim>\<open>sqlite3.Error\<close>.\<close>

datatype py_error = ValueError | OverflowError | IndexError | Db_error

text \<open>
  A row of the table \<^verbatim>\<open>reminders\<close> with its columns \<^verbatim>\<open>id\<close>, \<^verbatim>\<open>text\<close>, \<^verbatim>\<open>datetime\<close>, \<^verbatim>\<open>created_at\<close>
  and \<^verbatim>\<open>notified\<close>, and a dictionary \<^verbatim>\<open>{'id', 'text', 'datetime'}\<close> that \<^verbatim>\<open>check_reminders\<close>
  returns.
\<close>

record reminder =
  rem_id :: nat
  rem_text :: ustr
  rem_datetime :: datetime
  created_at :: datetime
  notified :: int

record due_item =
  item_id :: nat
  item_text :: ustr
  item_datetime :: datetime

definition item_of :: "reminder \<Rightarrow> due_item" where
  "item_of r = \<lparr>item_id = rem_id r, item_text = rem_text r, item_datetime = rem_datetime r\<rparr>"

text \<open>
  \<^verbatim>\<open>RemindersManager\<close>: the flag \<^verbatim>\<open>enabled\<close>, the table as its one connection sees it (rows in
  the order of insertion), and the last value of the \<^verbatim>\<open>AUTOINCREMENT\<close> key. What of the
  table has reached the disk is not modelled.
\<close>

record reminders_manager =
  enabled :: bool
  rows :: "reminder list"
  last_id :: nat

text \<open>
  A failure of the database during one call: the \<open>n\<close>-th \<^verbatim>\<open>cursor.execute\<close> of the call
  raises (counted from 0), or \<^verbatim>\<open>conn.commit()\<close> raises. A number past the last \<^verbatim>\<open>execute\<close>
  of the call is no failure.
\<close>

datatype db_fault = No_fault | Execute_fails nat | Commit_fails

text \<open>
  The \<^verbatim>\<open>SELECT\<close> of \<^verbatim>\<open>check_reminders\<close>: the rows with \<^verbatim>\<open>datetime <= now AND notified = 0\<close>,
  \<^verbatim>\<open>ORDER BY datetime\<close>. SQL leaves the order of rows with equal keys open; the model
  keeps them in the order of the table.
\<close>

definition select_due :: "reminder list \<Rightarrow> datetime \<Rightarrow> reminder list" where
  "select_due table now =
     sort_key rem_datetime (filter (\<lambda>r. rem_datetime r \<le> now \<and> notified r = 0) table)"

text \<open>\<^verbatim>\<open>UPDATE reminders SET notified = 1 WHERE id = ?\<close>\<close>

definition mark_notified :: "nat \<Rightarrow> reminder list \<Rightarrow> reminder list" where
  "mark_notified i table = map (\<lambda>r. if rem_id r = i then r\<lparr>notified := 1\<rparr> else r) table"

text \<open>
  The \<^verbatim>\<open>for row in self.cursor.fetchall()\<close> loop: \<open>n\<close> counts the \<^verbatim>\<open>execute\<close> calls made so
  far, \<open>acc\<close> is the list \<^verbatim>\<open>reminders\<close>. An \<^verbatim>\<open>UPDATE\<close> that raises leaves the earlier ones in
  place: the handler does not roll back.
\<close>

fun mark_each ::
  "db_fault \<Rightarrow> nat \<Rightarrow> reminder list \<Rightarrow> reminder list \<Rightarrow> due_item list \<Rightarrow>
     (py_error + due_item list) \<times> reminder list" where
  "mark_each fault n [] table acc = (Inr acc, table)"
| "mark_each fault n (row # fetched) table acc =
     (if fault = Execute_fails (Suc n) then (Inl Db_error, table)
      else mark_each fault (Suc n) fetched (mark_notified (rem_id row) table)
             (acc @ [item_of row]))"

text \<open>The body of the \<^verbatim>\<open>try\<close> block of \<^verbatim>\<open>check_reminders\<close>, with the clock reading \<open>now\<close>.\<close>

definition check_reminders_try ::
  "reminders_manager \<Rightarrow> datetime \<Rightarrow> db_fault \<Rightarrow>
     (py_error + due_item list) \<times> reminders_manager" where
  "check_reminders_try m now fault =
     (if fault = Execute_fails 0 then (Inl Db_error, m)
      else (case mark_each fault 0 (select_due (rows m) now) (rows m) [] of
              (Inl e, table) \<Rightarrow> (Inl e, m\<lparr>rows := table\<rparr>)
            | (Inr reminders, table) \<Rightarrow>
                if fault = Commit_fails then (Inl Db_error, m\<lparr>rows := table\<rparr>)
                else (Inr reminders, m\<lparr>rows := table\<rparr>)))"

text \<open>
  \<^verbatim>\<open>check_reminders()\<close>: the list returned, the manager afterwards, and whether the
  handler logged an error.
\<close>

definition check_reminders ::
  "reminders_manager \<Rightarrow> datetime \<Rightarrow> db_fault \<Rightarrow> due_item list \<times> reminders_manager \<times> bool" where
  "check_reminders m now fault =
     (if \<not> enabled m then ([], m, False)
      else (case check_reminders_try m now fault of
              (Inr reminders, m') \<Rightarrow> (reminders, m', False)
            | (Inl e, m') \<Rightarrow> ([], m', True)))"

section \<open>Reminder loop: \<^verbatim>\<open>_reminder_checker\<close> in \<^verbatim>\<open>src/assistant.py\<close>\<close>

text \<open>
  What the environment does in one cycle of the loop: the value of \<^verbatim>\<open>self.running\<close> at
  the loop test, the clock reading and the database failure of the poll, and which call
  of \<^verbatim>\<open>self.tts.speak\<close> raises, if any (counted from 0 within the cycle).
\<close>

record cycle =
  running :: bool
  poll_time :: datetime
  poll_fault :: db_fault
  speak_fault :: "nat option"

text \<open>
  What the loop does, in order: a call of \<^verbatim>\<open>check_reminders\<close> with its result, a message
  spoken, an error logged (by \<^verbatim>\<open>check_reminders\<close> or by the loop's own handler), a sleep of
  \<^verbatim>\<open>check_interval\<close> seconds. Messages logged at level info are left out.
\<close>

datatype sched_event = Polled "due_item list" | Spoken ustr | Logged_error | Sleeps nat

text \<open>The text \<^verbatim>\<open>"Napominanie: "\<close> that starts every spoken reminder, as code points.\<close>

definition reminder_prefix :: ustr where
  "reminder_prefix =
     [0x41D, 0x430, 0x43F, 0x43E, 0x43C, 0x438, 0x43D, 0x430, 0x43D, 0x438, 0x435, 0x3A, 0x20]"

text \<open>
  The \<^verbatim>\<open>for reminder in due_reminders\<close> loop: the events, and whether a \<^verbatim>\<open>speak\<close> raised
  (the reminders after it are then not spoken).
\<close>

fun speak_all :: "nat option \<Rightarrow> nat \<Rightarrow> due_item list \<Rightarrow> sched_event list \<times> bool" where
  "speak_all sf n [] = ([], False)"
| "speak_all sf n (d # ds) =
     (if sf = Some n then ([], True)
      else (case speak_all sf (Suc n) ds of
              (es, raised) \<Rightarrow> (Spoken (reminder_prefix @ item_text d) # es, raised)))"

text \<open>
  \<^verbatim>\<open>_reminder_checker\<close>: both the \<^verbatim>\<open>try\<close> block and the handler end with
  \<^verbatim>\<open>time.sleep(check_interval)\<close>. The result is the trace, the manager, and \<open>Returns ()\<close>
  when the loop has ended.
\<close>

fun reminder_checker ::
  "nat \<Rightarrow> reminders_manager \<Rightarrow> cycle list \<Rightarrow>
     sched_event list \<times> reminders_manager \<times> unit outcome" where
  "reminder_checker check_interval m [] = ([], m, Pending)"
| "reminder_checker check_interval m (c # cs) =
     (if \<not> running c then ([], m, Returns ())
      else (case check_reminders m (poll_time c) (poll_fault c) of
              (due_reminders, m', logged) \<Rightarrow>
                (case speak_all (speak_fault c) 0 due_reminders of
                   (spoken, raised) \<Rightarrow>
                     (case reminder_checker check_interval m' cs of
                        (es, m'', st) \<Rightarrow>
                          (Polled due_reminders # (if logged then [Logged_error] else []) @
                           spoken @ (if raised then [Logged_error] else []) @
                           Sleeps check_interval # es, m'', st)))))"

text \<open>Notions of the statements below: the kinds of events of a trace.\<close>

definition is_poll :: "sched_event \<Rightarrow> bool" where
  "is_poll e = (case e of Polled due \<Rightarrow> True | _ \<Rightarrow> False)"

definition is_spoken :: "sched_event \<Rightarrow> bool" where
  "is_spoken e = (case e of Spoken msg \<Rightarrow> True | _ \<Rightarrow> False)"

section \<open>Time expressions: \<^verbatim>\<open>parse_reminder_from_text\<close> in \<^verbatim>\<open>src/services/reminders.py\<close>\<close>

text \<open>
  The tables of the Python runtime that the library calls of the parser consult:
  \<^verbatim>\<open>str.lower\<close>, the white space that \<^verbatim>\<open>\s\<close> and \<^verbatim>\<open>str.strip\<close> recognise, the decimal digits
  that \<^verbatim>\<open>\d\<close> recognises, and the value \<^verbatim>\<open>int\<close> gives a decimal digit. They are not part of
  the repository, so the parser takes them as a parameter.
\<close>

record unicode_db =
  u_lower :: "ustr \<Rightarrow> ustr"
  u_isspace :: "nat \<Rightarrow> bool"
  u_isdecimal :: "nat \<Rightarrow> bool"
  u_decimal :: "nat \<Rightarrow> nat"

text \<open>
  The four regular expressions of the parser are sequences of three kinds of items: a
  literal character, \<^verbatim>\<open>\s+\<close>, and the group \<^verbatim>\<open>(\d+)\<close>.
\<close>

datatype re_item = Lit nat | Spaces | Digits

text \<open>
  A greedy \<^verbatim>\<open>+\<close> with backtracking: of the \<open>n\<close> characters available, take as many as
  possible such that the rest of the expression still matches; \<open>try_rest k\<close> matches the
  rest after \<open>k\<close> characters.
\<close>

fun re_greedy :: "(nat \<Rightarrow> 'a option) \<Rightarrow> nat \<Rightarrow> (nat \<times> 'a) option" where
  "re_greedy try_rest 0 = None"
| "re_greedy try_rest (Suc k) =
     (case try_rest (Suc k) of
        Some r \<Rightarrow> Some (Suc k, r)
      | None \<Rightarrow> re_greedy try_rest k)"

text \<open>
  Matching at the start of \<open>s\<close>: the texts of the groups and what is left of \<open>s\<close>
  after the match.
\<close>

fun re_match :: "unicode_db \<Rightarrow> re_item list \<Rightarrow> ustr \<Rightarrow> (ustr list \<times> ustr) option" where
  "re_match U [] s = Some ([], s)"
| "re_match U (Lit c # items) s =
     (case s of
        [] \<Rightarrow> None
      | x # xs \<Rightarrow> if x = c then re_match U items xs else None)"
| "re_match U (Spaces # items) s =
     (case re_greedy (\<lambda>k. re_match U items (drop k s))
             (length (takeWhile (u_isspace U) s)) of
        None \<Rightarrow> None
      | Some (k, found) \<Rightarrow> Some found)"
| "re_match U (Digits # items) s =
     (case re_greedy (\<lambda>k. re_match U items (drop k s))
             (length (takeWhile (u_isdecimal U) s)) of
        None \<Rightarrow> None
      | Some (k, gs, rest) \<Rightarrow> Some (take k s # gs, rest))"

text \<open>
  A match object: \<^verbatim>\<open>start()\<close>, \<^verbatim>\<open>end()\<close> and the groups. \<^verbatim>\<open>re.search\<close> returns the leftmost
  match; \<open>i\<close> counts the characters already passed.
\<close>

record match_obj =
  span_start :: nat
  span_end :: nat
  groups :: "ustr list"

fun re_search_from :: "unicode_db \<Rightarrow> re_item list \<Rightarrow> nat \<Rightarrow> ustr \<Rightarrow> match_obj option" where
  "re_search_from U re i [] =
     (case re_match U re [] of
        Some (gs, rest) \<Rightarrow> Some \<lparr>span_start = i, span_end = i, groups = gs\<rparr>
      | None \<Rightarrow> None)"
| "re_search_from U re i (x # xs) =
     (case re_match U re (x # xs) of
        Some (gs, rest) \<Rightarrow>
          Some \<lparr>span_start = i, span_end = i + (length (x # xs) - length rest), groups = gs\<rparr>
      | None \<Rightarrow> re_search_from U re (Suc i) xs)"

definition re_search :: "unicode_db \<Rightarrow> re_item list \<Rightarrow> ustr \<Rightarrow> match_obj option" where
  "re_search U re s = re_search_from U re 0 s"

text \<open>\<^verbatim>\<open>re.sub(pattern, '', s, count=1)\<close>: the leftmost match is cut out.\<close>

definition re_sub :: "unicode_db \<Rightarrow> re_item list \<Rightarrow> ustr \<Rightarrow> ustr" where
  "re_sub U re s =
     (case re_search U re s of
        None \<Rightarrow> s
      | Some mo \<Rightarrow> take (span_start mo) s @ drop (span_end mo) s)"

text \<open>\<^verbatim>\<open>match.group(i)\<close> for \<open>i\<close> from 1; a group the expression does not have is an error.\<close>

definition group :: "match_obj \<Rightarrow> nat \<Rightarrow> py_error + ustr" where
  "group mo i =
     (if 1 \<le> i \<and> i \<le> length (groups mo) then Inr (groups mo ! (i - 1)) else Inl IndexError)"

text \<open>
  \<^verbatim>\<open>str.strip()\<close>, and \<^verbatim>\<open>int()\<close> of a text of decimal digits. Python's integers are
  unbounded, as \<open>nat\<close> is. The limit that newer interpreters put on the length of a
  decimal string (4300 digits) is not modelled: the assistant cuts every command to 500
  characters (\<^verbatim>\<open>sanitize_user_input\<close>).
\<close>

definition py_strip :: "unicode_db \<Rightarrow> ustr \<Rightarrow> ustr" where
  "py_strip U s = rev (dropWhile (u_isspace U) (rev (dropWhile (u_isspace U) s)))"

definition py_int :: "unicode_db \<Rightarrow> ustr \<Rightarrow> nat" where
  "py_int U ds = foldl (\<lambda>n c. 10 * n + u_decimal U c) 0 ds"

text \<open>
  The Cyrillic letters of the four expressions and of the examples, under their Unicode
  names, and ASCII text. In the prose of this file Russian words are written in Latin
  letters: \<^verbatim>\<open>napomni\<close> (remind), \<^verbatim>\<open>cherez\<close> (in), \<^verbatim>\<open>minut\<close> (minutes), \<^verbatim>\<open>chas\<close> (hour),
  \<^verbatim>\<open>v\<close> (at), \<^verbatim>\<open>zavtra\<close> (tomorrow).
\<close>

abbreviation (input) cyr_a :: nat where "cyr_a \<equiv> 0x430"
abbreviation (input) cyr_ve :: nat where "cyr_ve \<equiv> 0x432"
abbreviation (input) cyr_de :: nat where "cyr_de \<equiv> 0x434"
abbreviation (input) cyr_ie :: nat where "cyr_ie \<equiv> 0x435"
abbreviation (input) cyr_ze :: nat where "cyr_ze \<equiv> 0x437"
abbreviation (input) cyr_i :: nat where "cyr_i \<equiv> 0x438"
abbreviation (input) cyr_ka :: nat where "cyr_ka \<equiv> 0x43A"
abbreviation (input) cyr_em :: nat where "cyr_em \<equiv> 0x43C"
abbreviation (input) cyr_en :: nat where "cyr_en \<equiv> 0x43D"
abbreviation (input) cyr_o :: nat where "cyr_o \<equiv> 0x43E"
abbreviation (input) cyr_pe :: nat where "cyr_pe \<equiv> 0x43F"
abbreviation (input) cyr_er :: nat where "cyr_er \<equiv> 0x440"
abbreviation (input) cyr_es :: nat where "cyr_es \<equiv> 0x441"
abbreviation (input) cyr_te :: nat where "cyr_te \<equiv> 0x442"
abbreviation (input) cyr_u :: nat where "cyr_u \<equiv> 0x443"
abbreviation (input) cyr_che :: nat where "cyr_che \<equiv> 0x447"
abbreviation (input) cyr_soft :: nat where "cyr_soft \<equiv> 0x44C"
abbreviation (input) cyr_ya :: nat where "cyr_ya \<equiv> 0x44F"
abbreviation (input) cyr_cap_en :: nat where "cyr_cap_en \<equiv> 0x41D"

definition ascii :: "string \<Rightarrow> ustr" where
  "ascii s = map of_char s"

text \<open>
  The dictionary \<^verbatim>\<open>patterns\<close>, in the order of its keys (the order in which the \<^verbatim>\<open>for\<close> loop
  goes through it): \<^verbatim>\<open>'cherez_minut'\<close>, \<^verbatim>\<open>'cherez_chasov'\<close>, \<^verbatim>\<open>'v_vremya'\<close>, \<^verbatim>\<open>'zavtra_v'\<close>.
  The expressions are \<^verbatim>\<open>cherez\s+(\d+)\s+minut\<close>, \<^verbatim>\<open>cherez\s+(\d+)\s+chas\<close>,
  \<^verbatim>\<open>v\s+(\d+):(\d+)\<close> and \<^verbatim>\<open>zavtra\s+v\s+(\d+):(\d+)\<close>.
\<close>

datatype pattern_name = Cherez_minut | Cherez_chasov | V_vremya | Zavtra_v

definition re_cherez_minut :: "re_item list" where
  "re_cherez_minut =
     map Lit [cyr_che, cyr_ie, cyr_er, cyr_ie, cyr_ze] @ [Spaces, Digits, Spaces] @
     map Lit [cyr_em, cyr_i, cyr_en, cyr_u, cyr_te]"

definition re_cherez_chasov :: "re_item list" where
  "re_cherez_chasov =
     map Lit [cyr_che, cyr_ie, cyr_er, cyr_ie, cyr_ze] @ [Spaces, Digits, Spaces] @
     map Lit [cyr_che, cyr_a, cyr_es]"

definition re_v_vremya :: "re_item list" where
  "re_v_vremya = [Lit cyr_ve, Spaces, Digits, Lit 0x3A, Digits]"

definition re_zavtra_v :: "re_item list" where
  "re_zavtra_v =
     map Lit [cyr_ze, cyr_a, cyr_ve, cyr_te, cyr_er, cyr_a] @
     [Spaces, Lit cyr_ve, Spaces, Digits, Lit 0x3A, Digits]"

definition patterns :: "(pattern_name \<times> re_item list) list" where
  "patterns =
     [(Cherez_minut, re_cherez_minut), (Cherez_chasov, re_cherez_chasov),
      (V_vremya, re_v_vremya), (Zavtra_v, re_zavtra_v)]"

text \<open>
  Arithmetic of \<^verbatim>\<open>datetime\<close> and \<^verbatim>\<open>timedelta\<close>. \<^verbatim>\<open>datetime.max\<close> is the last microsecond of
  9999-12-31, day 3652059 of the calendar; a sum past it raises \<^verbatim>\<open>OverflowError\<close> (and so
  does a \<^verbatim>\<open>timedelta\<close> too long to build, which is longer than the whole calendar).
  \<^verbatim>\<open>now.replace(hour=h, minute=m, second=0, microsecond=0)\<close> keeps the date of \<open>now\<close> and
  raises \<^verbatim>\<open>ValueError\<close> for an hour above 23 or a minute above 59.
\<close>

definition usec_per_minute :: nat where
  "usec_per_minute = 60000000"

definition usec_per_hour :: nat where
  "usec_per_hour = 3600000000"

definition usec_per_day :: nat where
  "usec_per_day = 86400000000"

definition datetime_max :: datetime where
  "datetime_max = 3652059 * usec_per_day - 1"

definition timedelta_add :: "datetime \<Rightarrow> nat \<Rightarrow> py_error + datetime" where
  "timedelta_add t usec = (if t + usec > datetime_max then Inl OverflowError else Inr (t + usec))"

definition day_start :: "datetime \<Rightarrow> datetime" where
  "day_start t = t - t mod usec_per_day"

definition today_at :: "datetime \<Rightarrow> nat \<Rightarrow> nat \<Rightarrow> datetime" where
  "today_at now h m = day_start now + h * usec_per_hour + m * usec_per_minute"

definition replace_hm :: "datetime \<Rightarrow> nat \<Rightarrow> nat \<Rightarrow> py_error + datetime" where
  "replace_hm now h m = (if h > 23 \<or> m > 59 then Inl ValueError else Inr (today_at now h m))"

text \<open>
  The four branches of the \<^verbatim>\<open>if\<close> chain, up to the computation of \<^verbatim>\<open>remind_time\<close>. All four
  end alike, with \<^verbatim>\<open>re.sub\<close>, \<^verbatim>\<open>strip\<close> and the \<^verbatim>\<open>return\<close>: that part is in \<open>parse_loop\<close>.
\<close>

definition remind_time_of ::
  "unicode_db \<Rightarrow> pattern_name \<Rightarrow> datetime \<Rightarrow> match_obj \<Rightarrow> py_error + datetime" where
  "remind_time_of U pattern_name now mo =
     (case pattern_name of
        Cherez_minut \<Rightarrow>
          (case group mo 1 of
             Inl e \<Rightarrow> Inl e
           | Inr g \<Rightarrow> timedelta_add now (py_int U g * usec_per_minute))
      | Cherez_chasov \<Rightarrow>
          (case group mo 1 of
             Inl e \<Rightarrow> Inl e
           | Inr g \<Rightarrow> timedelta_add now (py_int U g * usec_per_hour))
      | V_vremya \<Rightarrow>
          (case group mo 1 of
             Inl e \<Rightarrow> Inl e
           | Inr g1 \<Rightarrow>
               (case group mo 2 of
                  Inl e \<Rightarrow> Inl e
                | Inr g2 \<Rightarrow>
                    (case replace_hm now (py_int U g1) (py_int U g2) of
                       Inl e \<Rightarrow> Inl e
                     | Inr remind_time \<Rightarrow>
                         if remind_time < now then timedelta_add remind_time usec_per_day
                         else Inr remind_time)))
      | Zavtra_v \<Rightarrow>
          (case group mo 1 of
             Inl e \<Rightarrow> Inl e
           | Inr g1 \<Rightarrow>
               (case group mo 2 of
                  Inl e \<Rightarrow> Inl e
                | Inr g2 \<Rightarrow>
                    (case replace_hm now (py_int U g1) (py_int U g2) of
                       Inl e \<Rightarrow> Inl e
                     | Inr remind_time \<Rightarrow> timedelta_add remind_time usec_per_day))))"

text \<open>
  The \<^verbatim>\<open>for pattern_name, pattern in patterns.items()\<close> loop and the final
  \<^verbatim>\<open>return None, text\<close>. \<open>now\<close> is the clock reading \<^verbatim>\<open>datetime.now()\<close>.
\<close>

fun parse_loop ::
  "unicode_db \<Rightarrow> datetime \<Rightarrow> ustr \<Rightarrow> ustr \<Rightarrow> (pattern_name \<times> re_item list) list \<Rightarrow>
     py_error + (datetime option \<times> ustr)" where
  "parse_loop U now text_in text_lower [] = Inr (None, text_in)"
| "parse_loop U now text_in text_lower ((pattern_name, pattern) # rest) =
     (case re_search U pattern text_lower of
        None \<Rightarrow> parse_loop U now text_in text_lower rest
      | Some mo \<Rightarrow>
          (case remind_time_of U pattern_name now mo of
             Inl e \<Rightarrow> Inl e
           | Inr remind_time \<Rightarrow>
               Inr (Some remind_time, py_strip U (re_sub U pattern text_lower))))"

definition parse_reminder_from_text ::
  "unicode_db \<Rightarrow> datetime \<Rightarrow> ustr \<Rightarrow> py_error + (datetime option \<times> ustr)" where
  "parse_reminder_from_text U now text_in = parse_loop U now text_in (u_lower U text_in) patterns"

text \<open>
  The tables on the code points of ASCII and of the Russian alphabet (up to U+045F), for
  the examples: there the decimal digits are \<^verbatim>\<open>0\<close> to \<^verbatim>\<open>9\<close>, and \<^verbatim>\<open>lower\<close> maps \<^verbatim>\<open>A\<close> to \<^verbatim>\<open>Z\<close>,
  U+0410 to U+042F and U+0400 to U+040F to their small letters. The white space is all
  of Python's.
\<close>

definition ascii_russian :: unicode_db where
  "ascii_russian =
     \<lparr>u_lower = map (\<lambda>c. if 0x41 \<le> c \<and> c \<le> 0x5A then c + 0x20
                          else if 0x410 \<le> c \<and> c \<le> 0x42F then c + 0x20
                          else if 0x400 \<le> c \<and> c \<le> 0x40F then c + 0x50
                          else c),
      u_isspace = (\<lambda>c. (9 \<le> c \<and> c \<le> 13) \<or> (28 \<le> c \<and> c \<le> 32) \<or> c = 0x85 \<or> c = 0xA0 \<or>
                        c = 0x1680 \<or> (0x2000 \<le> c \<and> c \<le> 0x200A) \<or> c = 0x2028 \<or>
                        c = 0x2029 \<or> c = 0x202F \<or> c = 0x205F \<or> c = 0x3000),
      u_isdecimal = (\<lambda>c. 0x30 \<le> c \<and> c \<le> 0x39),
      u_decimal = (\<lambda>c. c - 0x30)\<rparr>"

section \<open>Creating a reminder: \<^verbatim>\<open>add_reminder\<close> and \<^verbatim>\<open>_handle_reminder\<close>\<close>

text \<open>
  What the assistant says after a reminder command, standing for the four texts of the
  source: the confirmation with the time and the text, "service disabled", "could not
  create" and "could not understand the time".
\<close>

datatype message =
  Reminder_created datetime ustr | Service_disabled | Create_failed | Time_not_understood

text \<open>
  \<^verbatim>\<open>add_reminder(text, remind_datetime)\<close>; \<open>created\<close> is its clock reading. The new row gets
  the next key and \<^verbatim>\<open>notified = 0\<close> by default. When the \<^verbatim>\<open>INSERT\<close> raises, nothing is added;
  when the \<^verbatim>\<open>commit\<close> raises, the connection still sees the row.
\<close>

definition add_reminder ::
  "reminders_manager \<Rightarrow> datetime \<Rightarrow> db_fault \<Rightarrow> ustr \<Rightarrow> datetime \<Rightarrow>
     (bool \<times> message) \<times> reminders_manager" where
  "add_reminder m created fault text_in remind_datetime =
     (if \<not> enabled m then ((False, Service_disabled), m)
      else if fault = Execute_fails 0 then ((False, Create_failed), m)
      else
        (let m' = m\<lparr>rows := rows m @
                     [\<lparr>rem_id = Suc (last_id m), rem_text = text_in,
                       rem_datetime = remind_datetime, created_at = created, notified = 0\<rparr>],
                   last_id := Suc (last_id m)\<rparr>
         in if fault = Commit_fails then ((False, Create_failed), m')
            else ((True, Reminder_created remind_datetime text_in), m')))"

text \<open>
  \<^verbatim>\<open>_handle_reminder(text)\<close>: what is spoken and the manager afterwards, or the exception
  the parser raised. A \<^verbatim>\<open>datetime\<close> is always truthy, so \<^verbatim>\<open>remind_time and reminder_text\<close>
  asks for a time and a text that is not empty.
\<close>

definition handle_reminder ::
  "unicode_db \<Rightarrow> reminders_manager \<Rightarrow> datetime \<Rightarrow> datetime \<Rightarrow> db_fault \<Rightarrow> ustr \<Rightarrow>
     py_error + (message \<times> reminders_manager)" where
  "handle_reminder U m now created fault text_in =
     (case parse_reminder_from_text U now text_in of
        Inl e \<Rightarrow> Inl e
      | Inr (remind_time, reminder_text) \<Rightarrow>
          (case remind_time of
             Some t \<Rightarrow>
               if reminder_text \<noteq> []
               then (case add_reminder m created fault reminder_text t of
                       ((success, msg), m') \<Rightarrow> Inr (msg, m'))
               else Inr (Time_not_understood, m)
           | None \<Rightarrow> Inr (Time_not_understood, m)))"

section \<open>The commands of the examples\<close>

text \<open>
  The word \<^verbatim>\<open>"napomni"\<close>, and the commands \<^verbatim>\<open>"napomni v 8:00 zaryadku"\<close>,
  \<^verbatim>\<open>"napomni zavtra v 9:00 pozvonit"\<close>, \<^verbatim>\<open>"Napomni cherez 5 minut"\<close> (with a capital letter)
  and \<^verbatim>\<open>"cherez 5 minut"\<close>. The clock reading \<open>jan_15\<close> is 2024-01-15 00:00, day 738899
  of the calendar counted from 0.
\<close>

definition napomni :: ustr where
  "napomni = [cyr_en, cyr_a, cyr_pe, cyr_o, cyr_em, cyr_en, cyr_i]"

definition say_at_8 :: ustr where
  "say_at_8 = napomni @ ascii '' '' @ [cyr_ve] @ ascii '' 8:00 '' @
     [cyr_ze, cyr_a, cyr_er, cyr_ya, cyr_de, cyr_ka, cyr_u]"

definition pozvonit :: ustr where
  "pozvonit = [cyr_pe, cyr_o, cyr_ze, cyr_ve, cyr_o, cyr_en, cyr_i, cyr_te, cyr_soft]"

definition zavtra :: ustr where
  "zavtra = [cyr_ze, cyr_a, cyr_ve, cyr_te, cyr_er, cyr_a]"

definition say_tomorrow_at_9 :: ustr where
  "say_tomorrow_at_9 = napomni @ ascii '' '' @ zavtra @ ascii '' '' @ [cyr_ve] @
     ascii '' 9:00 '' @ pozvonit"

definition cherez_5_minut :: ustr where
  "cherez_5_minut = [cyr_che, cyr_ie, cyr_er, cyr_ie, cyr_ze] @ ascii '' 5 '' @
     [cyr_em, cyr_i, cyr_en, cyr_u, cyr_te]"

definition say_in_5_minutes :: ustr where
  "say_in_5_minutes = [cyr_cap_en, cyr_a, cyr_pe, cyr_o, cyr_em, cyr_en, cyr_i] @ ascii '' '' @
     cherez_5_minut"

definition jan_15 :: datetime where
  "jan_15 = 738899 * usec_per_day"

section \<open>Properties of the activation wait\<close>

text \<open>
  C6. With both activation methods disabled, \<^verbatim>\<open>wait_for_activation\<close> returns
  \<^verbatim>\<open>'auto'\<close> whatever the engine, the timeout and the environment are: it reads no
  flag, makes no observable call and never sleeps (the effect list is empty), and it
  leaves the manager as it was.
\<close>

theorem wait_for_activation_auto:
  assumes "\<not> gpio_enabled m" and "\<not> wake_word_enabled m"
  shows "wait_for_activation m stt_engine timeout start_time polls = (Returns Auto, m, [])"
  using assms by (simp add: wait_for_activation_def)

theorem wait_for_activation_auto_witness:
  "wait_for_activation
     \<lparr>gpio_enabled = False, wake_word_enabled = False,
      button_pressed = True, wake_word_detected = False\<rparr>
     True (Some 5) 0 []
   = (Returns Auto,
      \<lparr>gpio_enabled = False, wake_word_enabled = False,
       button_pressed = True, wake_word_detected = False\<rparr>, [])"
  using wait_for_activation_auto
    [of "\<lparr>gpio_enabled = False, wake_word_enabled = False,
          button_pressed = True, wake_word_detected = False\<rparr>" True "Some 5" 0 "[]"]
  by simp

lemma poll_cycle_quiet:
  assumes "\<not> button_pressed m" and "\<not> wake_word_detected m"
    and "quiet timeout start_time p"
  shows "poll_cycle m timeout start_time p = (None, m)"
  using assms by (simp add: poll_cycle_def quiet_def)

lemma wait_loop_quiet_prefix:
  assumes "\<not> button_pressed m" and "\<not> wake_word_detected m"
    and "\<forall>q \<in> set pre. quiet timeout start_time q"
  shows "wait_loop m timeout start_time (pre @ ps) =
           (case wait_loop m timeout start_time ps of
              (r, m', es) \<Rightarrow> (r, m', replicate (length pre) Slept @ es))"
  using assms(3)
proof (induction pre)
  case Nil
  show ?case by (simp split: prod.splits)
next
  case (Cons q pre)
  then have "poll_cycle m timeout start_time q = (None, m)"
    using assms(1,2) by (simp add: poll_cycle_quiet)
  with Cons show ?case by (simp split: prod.splits)
qed

lemma poll_cycle_both_flags:
  assumes "button_pressed m \<or> button_event p"
    and "wake_word_detected m \<or> wake_event p"
  shows "poll_cycle m timeout start_time p =
           (Some Button, m\<lparr>button_pressed := False, wake_word_detected := True\<rparr>)"
  using assms by (auto simp: poll_cycle_def)

text \<open>
  C5. In an iteration of the polling loop in which both flags are set when they are
  read, the button is tested first: the iteration returns \<^verbatim>\<open>'button'\<close>, clears the button
  flag and leaves the wake word flag set, whatever the timeout is. So a call that has
  slept through any number of quiet iterations and then finds both flags set returns
  \<^verbatim>\<open>'button'\<close>.
\<close>

theorem wait_for_activation_tie_break:
  "(button_pressed m \<or> button_event p) \<and> (wake_word_detected m \<or> wake_event p) \<longrightarrow>
     poll_cycle m timeout start_time p =
       (Some Button, m\<lparr>button_pressed := False, wake_word_detected := True\<rparr>) \<and>
     ((gpio_enabled m \<or> wake_word_enabled m) \<and>
      \<not> button_pressed m \<and> \<not> wake_word_detected m \<and>
      (\<forall>q \<in> set pre. quiet timeout start_time q) \<longrightarrow>
        fst (wait_for_activation m stt_engine timeout start_time (pre @ p # ps)) =
          Returns Button)"
proof (intro impI conjI)
  assume both: "(button_pressed m \<or> button_event p) \<and> (wake_word_detected m \<or> wake_event p)"
  then show cycle: "poll_cycle m timeout start_time p =
      (Some Button, m\<lparr>button_pressed := False, wake_word_detected := True\<rparr>)"
    by (simp add: poll_cycle_both_flags)
  assume call: "(gpio_enabled m \<or> wake_word_enabled m) \<and>
      \<not> button_pressed m \<and> \<not> wake_word_detected m \<and>
      (\<forall>q \<in> set pre. quiet timeout start_time q)"
  then have "wait_loop m timeout start_time (pre @ p # ps) =
      (case wait_loop m timeout start_time (p # ps) of
         (r, m', es) \<Rightarrow> (r, m', replicate (length pre) Slept @ es))"
    by (simp add: wait_loop_quiet_prefix)
  with cycle have "fst (wait_loop m timeout start_time (pre @ p # ps)) = Returns Button"
    by simp
  with call show "fst (wait_for_activation m stt_engine timeout start_time (pre @ p # ps)) =
      Returns Button"
    by (auto simp: wait_for_activation_def split: prod.splits)
qed

theorem wait_for_activation_tie_break_witness:
  "poll_cycle
     \<lparr>gpio_enabled = True, wake_word_enabled = True,
      button_pressed = False, wake_word_detected = False\<rparr>
     None 0
     \<lparr>button_event = True, wake_event = True, clock = 2, keyboard_interrupt = False\<rparr>
   = (Some Button,
      \<lparr>gpio_enabled = True, wake_word_enabled = True,
       button_pressed = False, wake_word_detected = True\<rparr>) \<and>
   fst (wait_for_activation
     \<lparr>gpio_enabled = True, wake_word_enabled = True,
      button_pressed = False, wake_word_detected = False\<rparr>
     True None 0
     ([\<lparr>button_event = False, wake_event = False, clock = 1, keyboard_interrupt = False\<rparr>] @
      \<lparr>button_event = True, wake_event = True, clock = 2, keyboard_interrupt = False\<rparr> # []))
   = Returns Button"
  using wait_for_activation_tie_break
    [of "\<lparr>gpio_enabled = True, wake_word_enabled = True,
          button_pressed = False, wake_word_detected = False\<rparr>"
        "\<lparr>button_event = True, wake_event = True, clock = 2, keyboard_interrupt = False\<rparr>"
        None 0
        "[\<lparr>button_event = False, wake_event = False, clock = 1, keyboard_interrupt = False\<rparr>]"
        True "[]"]
  by (simp add: quiet_def timed_out_def)

lemma wait_loop_no_timeout:
  assumes "timeout = None \<or> timeout = Some 0"
  shows "fst (wait_loop m timeout start_time polls) \<noteq> Returns Timeout"
proof (induction polls arbitrary: m)
  case Nil
  show ?case by simp
next
  case (Cons p polls)
  from assms have never: "\<not> timed_out timeout start_time (clock p)"
    by (auto simp: timed_out_def)
  show ?case
  proof (cases "poll_cycle m timeout start_time p")
    case (Pair r m')
    show ?thesis
    proof (cases r)
      case None
      with Pair Cons.IH [of m'] show ?thesis by (auto split: prod.splits)
    next
      case (Some a)
      with Pair never have "a \<noteq> Timeout"
        by (auto simp: poll_cycle_def Let_def split: if_splits)
      with Pair Some show ?thesis by simp
    qed
  qed
qed

text \<open>
  C7 as the source has it. The source tests \<^verbatim>\<open>if timeout and ...\<close>, so the timeout counts
  only when it is neither \<^verbatim>\<open>None\<close> nor zero. For such a timeout \<open>t\<close>, a call that has
  slept through quiet iterations and then, with neither flag set, reads a clock with
  \<open>clock - start_time > t\<close> returns \<^verbatim>\<open>'timeout'\<close>. With the timeout \<^verbatim>\<open>None\<close> or zero no
  call ever returns \<^verbatim>\<open>'timeout'\<close>, and as long as no flag is set and no interrupt
  arrives the call is still waiting, having slept once per iteration.
\<close>

theorem wait_for_activation_timeout:
  assumes "gpio_enabled m \<or> wake_word_enabled m"
    and "\<not> button_pressed m" and "\<not> wake_word_detected m"
    and "\<forall>q \<in> set pre. quiet timeout start_time q"
  shows "(timeout = Some t \<and> t \<noteq> 0 \<and> \<not> button_event p \<and> \<not> wake_event p \<and>
          clock p - start_time > t \<longrightarrow>
            fst (wait_for_activation m stt_engine timeout start_time (pre @ p # ps)) =
              Returns Timeout) \<and>
         (timeout = None \<or> timeout = Some 0 \<longrightarrow>
            fst (wait_for_activation m stt_engine timeout start_time polls) \<noteq> Returns Timeout \<and>
            ((\<forall>q \<in> set polls. \<not> button_event q \<and> \<not> wake_event q \<and> \<not> keyboard_interrupt q) \<longrightarrow>
               fst (wait_for_activation m stt_engine timeout start_time polls) = Pending \<and>
               length (filter (\<lambda>e. e = Slept)
                 (snd (snd (wait_for_activation m stt_engine timeout start_time polls)))) =
                 length polls))"
proof (intro conjI impI)
  assume t: "timeout = Some t \<and> t \<noteq> 0 \<and> \<not> button_event p \<and> \<not> wake_event p \<and>
      clock p - start_time > t"
  with assms(2,3) have "poll_cycle m timeout start_time p = (Some Timeout, m)"
    by (simp add: poll_cycle_def timed_out_def)
  moreover have "wait_loop m timeout start_time (pre @ p # ps) =
      (case wait_loop m timeout start_time (p # ps) of
         (r, m', es) \<Rightarrow> (r, m', replicate (length pre) Slept @ es))"
    using assms(2,3,4) by (simp add: wait_loop_quiet_prefix)
  ultimately have "fst (wait_loop m timeout start_time (pre @ p # ps)) = Returns Timeout"
    by simp
  with assms(1) show "fst (wait_for_activation m stt_engine timeout start_time (pre @ p # ps)) =
      Returns Timeout"
    by (auto simp: wait_for_activation_def split: prod.splits)
next
  assume off: "timeout = None \<or> timeout = Some 0"
  then have "fst (wait_loop m timeout start_time polls) \<noteq> Returns Timeout"
    by (rule wait_loop_no_timeout)
  with assms(1) show "fst (wait_for_activation m stt_engine timeout start_time polls) \<noteq>
      Returns Timeout"
    by (auto simp: wait_for_activation_def split: prod.splits)
  assume calm: "\<forall>q \<in> set polls. \<not> button_event q \<and> \<not> wake_event q \<and> \<not> keyboard_interrupt q"
  from off have "\<And>c. \<not> timed_out timeout start_time c"
    by (auto simp: timed_out_def)
  with calm have "\<forall>q \<in> set polls. quiet timeout start_time q"
    by (simp add: quiet_def)
  with assms(2,3) have "wait_loop m timeout start_time (polls @ []) =
      (case wait_loop m timeout start_time [] of
         (r, m', es) \<Rightarrow> (r, m', replicate (length polls) Slept @ es))"
    by (rule wait_loop_quiet_prefix)
  then have loop: "wait_loop m timeout start_time polls =
      (Pending, m, replicate (length polls) Slept)"
    by simp
  with assms(1) show "fst (wait_for_activation m stt_engine timeout start_time polls) = Pending"
    by (auto simp: wait_for_activation_def)
  from loop assms(1) show "length (filter (\<lambda>e. e = Slept)
      (snd (snd (wait_for_activation m stt_engine timeout start_time polls)))) = length polls"
    by (auto simp: wait_for_activation_def)
qed

theorem wait_for_activation_timeout_witness:
  "fst (wait_for_activation
     \<lparr>gpio_enabled = True, wake_word_enabled = False,
      button_pressed = False, wake_word_detected = False\<rparr>
     False (Some 3) 0
     ([\<lparr>button_event = False, wake_event = False, clock = 1, keyboard_interrupt = False\<rparr>] @
      \<lparr>button_event = False, wake_event = False, clock = 4, keyboard_interrupt = False\<rparr> # []))
   = Returns Timeout \<and>
   fst (wait_for_activation
     \<lparr>gpio_enabled = True, wake_word_enabled = False,
      button_pressed = False, wake_word_detected = False\<rparr>
     False None 0
     [\<lparr>button_event = False, wake_event = False, clock = 1, keyboard_interrupt = False\<rparr>,
      \<lparr>button_event = False, wake_event = False, clock = 4, keyboard_interrupt = False\<rparr>])
   = Pending"
  using wait_for_activation_timeout
    [of "\<lparr>gpio_enabled = True, wake_word_enabled = False,
          button_pressed = False, wake_word_detected = False\<rparr>"
        "[\<lparr>button_event = False, wake_event = False, clock = 1, keyboard_interrupt = False\<rparr>]"
        "Some 3" 0 3
        "\<lparr>button_event = False, wake_event = False, clock = 4, keyboard_interrupt = False\<rparr>"
        False "[]" "[]"]
    wait_for_activation_timeout
    [of "\<lparr>gpio_enabled = True, wake_word_enabled = False,
          button_pressed = False, wake_word_detected = False\<rparr>"
        "[]" None 0 0
        "\<lparr>button_event = False, wake_event = False, clock = 4, keyboard_interrupt = False\<rparr>"
        False "[]"
        "[\<lparr>button_event = False, wake_event = False, clock = 1, keyboard_interrupt = False\<rparr>,
          \<lparr>button_event = False, wake_event = False, clock = 4, keyboard_interrupt = False\<rparr>]"]
  by (simp add: quiet_def timed_out_def)

text \<open>
  The claim "for every timeout that is not null" fails at the timeout zero: the call
  started at time 0 with timeout 0 reads the clock 5 with neither flag set, and goes on
  waiting.
\<close>

theorem wait_for_activation_timeout_zero_counterexample:
  "(5::real) - 0 > 0 \<and>
   wait_for_activation
     \<lparr>gpio_enabled = True, wake_word_enabled = False,
      button_pressed = False, wake_word_detected = False\<rparr>
     False (Some 0) 0
     [\<lparr>button_event = False, wake_event = False, clock = 5, keyboard_interrupt = False\<rparr>]
   = (Pending,
      \<lparr>gpio_enabled = True, wake_word_enabled = False,
       button_pressed = False, wake_word_detected = False\<rparr>,
      [Led_waiting, Slept])"
  by (simp add: wait_for_activation_def poll_cycle_def timed_out_def)

section \<open>Properties of the capture session\<close>

lemma broke_sound:
  "listen_loop ms mc s r fs = Broke s' r' \<Longrightarrow>
     \<exists>k. 0 < k \<and> k \<le> length fs \<and> stops ms mc s r (take k fs) \<and>
         s' = silence_count s (take k fs) \<and> r' = r + int k"
proof (induction ms mc s r fs rule: listen_loop.induct)
  case (1 ms mc s r)
  then show ?case by simp
next
  case (2 ms mc s r fs)
  then show ?case by simp
next
  case (3 ms mc s r t fs)
  show ?case
  proof (cases "t \<noteq> []")
    case True
    with 3 show ?thesis by simp
  next
    case empty: False
    show ?thesis
    proof (cases "stop_check ms mc (s + 1) (r + 1)")
      case True
      with empty 3(2) have "s' = s + 1" "r' = r + 1" by simp_all
      with True empty show ?thesis
        by (intro exI [of _ 1]) (simp add: stops_def speechless_def silence_count_def)
    next
      case False
      with empty 3 obtain k where k: "0 < k" "k \<le> length fs" "stops ms mc (s + 1) (r + 1) (take k fs)"
        "s' = silence_count (s + 1) (take k fs)" "r' = r + 1 + int k"
        by auto
      with empty show ?thesis
        by (intro exI [of _ "Suc k"]) (simp add: stops_def speechless_def silence_count_def add.assoc)
    qed
  qed
next
  case (4 ms mc s r p fs)
  define s1 where "s1 = (if p \<noteq> [] then 0 else s + 1)"
  show ?case
  proof (cases "stop_check ms mc s1 (r + 1)")
    case True
    with 4(2) have "s' = s1" "r' = r + 1" by (simp_all add: s1_def Let_def)
    with True show ?thesis
      by (intro exI [of _ 1]) (simp add: stops_def speechless_def silence_count_def s1_def)
  next
    case False
    with 4 obtain k where k: "0 < k" "k \<le> length fs" "stops ms mc s1 (r + 1) (take k fs)"
        "s' = silence_count s1 (take k fs)" "r' = r + 1 + int k"
      by (auto simp: s1_def Let_def)
    then show ?thesis
      by (intro exI [of _ "Suc k"]) (simp add: stops_def speechless_def silence_count_def s1_def add.assoc)
  qed
qed

lemma broke_complete:
  "0 < k \<Longrightarrow> k \<le> length fs \<Longrightarrow> stops ms mc s r (take k fs) \<Longrightarrow>
     \<exists>s' r'. listen_loop ms mc s r fs = Broke s' r'"
proof (induction ms mc s r fs arbitrary: k rule: listen_loop.induct)
  case (1 ms mc s r)
  then show ?case by simp
next
  case (2 ms mc s r fs)
  then show ?case by (cases k) (simp_all add: stops_def speechless_def)
next
  case (3 ms mc s r t fs)
  then obtain k0 where k: "k = Suc k0" by (cases k) auto
  with 3(4) have empty: "t = []" by (simp add: stops_def speechless_def)
  show ?case
  proof (cases "stop_check ms mc (s + 1) (r + 1)")
    case True
    with empty show ?thesis by simp
  next
    case False
    with 3(4) k empty have "0 < k0"
      by (cases k0) (simp_all add: stops_def silence_count_def)
    moreover from 3(3) k have "k0 \<le> length fs" by simp
    moreover from 3(4) k empty have "stops ms mc (s + 1) (r + 1) (take k0 fs)"
      by (simp add: stops_def speechless_def silence_count_def add.assoc)
    ultimately have "\<exists>s' r'. listen_loop ms mc (s + 1) (r + 1) fs = Broke s' r'"
      using 3(1) [of k0] empty False by simp
    with empty False show ?thesis by simp
  qed
next
  case (4 ms mc s r p fs)
  then obtain k0 where k: "k = Suc k0" by (cases k) auto
  define s1 where "s1 = (if p \<noteq> [] then 0 else s + 1)"
  show ?case
  proof (cases "stop_check ms mc s1 (r + 1)")
    case True
    then show ?thesis by (simp add: s1_def Let_def)
  next
    case False
    with 4(4) k have "0 < k0"
      by (cases k0) (simp_all add: stops_def silence_count_def s1_def)
    moreover from 4(3) k have "k0 \<le> length fs" by simp
    moreover from 4(4) k have "stops ms mc s1 (r + 1) (take k0 fs)"
      by (simp add: stops_def speechless_def silence_count_def s1_def add.assoc)
    ultimately have "\<exists>s' r'. listen_loop ms mc s1 (r + 1) fs = Broke s' r'"
      using 4(1) [of s1 k0] False by (simp add: s1_def)
    with False show ?thesis by (simp add: s1_def Let_def)
  qed
qed


lemma raised_error:
  "listen_loop ms mc s r fs = Raised \<Longrightarrow> Source_error \<in> set fs"
  by (induction ms mc s r fs rule: listen_loop.induct) (auto simp: Let_def split: if_splits)

lemma waiting_append:
  "listen_loop ms mc s r pre = Waiting \<Longrightarrow>
     listen_loop ms mc s r (pre @ fs) =
       listen_loop ms mc (silence_count s pre) (r + int (length pre)) fs"
  by (induction ms mc s r pre rule: listen_loop.induct)
     (auto simp: Let_def silence_count_def add.assoc split: if_splits)

lemma silence_count_partial_text:
  "p \<noteq> [] \<Longrightarrow> silence_count s (pre @ [Partial p]) = 0"
  by (simp add: silence_count_def)

lemma silence_count_silent:
  "f = Partial [] \<or> f = Final [] \<Longrightarrow> silence_count s (pre @ [f]) = silence_count s pre + 1"
  by (auto simp: silence_count_def)

lemma listen_counts:
  "listen (Chunks ms) timeout (Chunks c) frames final_text =
     listen_result (listen_loop ms (max_chunks timeout c) 0 0 frames) final_text"
  by (simp add: listen_def max_chunks_def)

lemma listen_result_none_iff:
  assumes "Source_error \<notin> set frames"
  shows "listen_result (listen_loop ms mc 0 0 frames) final_text = Returns None \<longleftrightarrow>
           final_text = [] \<and>
           (\<exists>k. 0 < k \<and> k \<le> length frames \<and> stops ms mc 0 0 (take k frames))"
proof (cases "listen_loop ms mc 0 0 frames")
  case (Text t)
  have "\<not> (\<exists>k. 0 < k \<and> k \<le> length frames \<and> stops ms mc 0 0 (take k frames))"
    using broke_complete [of _ frames ms mc 0 0] Text by auto
  with Text show ?thesis by (simp add: listen_result_def)
next
  case (Broke s r)
  then have "\<exists>k. 0 < k \<and> k \<le> length frames \<and> stops ms mc 0 0 (take k frames)"
    using broke_sound by blast
  with Broke show ?thesis by (simp add: listen_result_def)
next
  case Raised
  with assms show ?thesis using raised_error by blast
next
  case Waiting
  have "\<not> (\<exists>k. 0 < k \<and> k \<le> length frames \<and> stops ms mc 0 0 (take k frames))"
    using broke_complete [of _ frames ms mc 0 0] Waiting by auto
  with Waiting show ?thesis by (simp add: listen_result_def)
qed

lemma listen_none_iff:
  assumes "Source_error \<notin> set frames"
  shows "listen (Chunks ms) timeout (Chunks c) frames final_text = Returns None \<longleftrightarrow>
           final_text = [] \<and>
           (\<exists>k. 0 < k \<and> k \<le> length frames \<and>
                stops ms (max_chunks timeout c) 0 0 (take k frames))"
  unfolding listen_counts using assms by (rule listen_result_none_iff)

lemma listen_result_error:
  assumes "listen_result (listen_loop ms mc 0 0 pre) final_text = Pending"
  shows "listen_result (listen_loop ms mc 0 0 (pre @ Source_error # rest)) final_text =
           Returns None"
proof -
  from assms have "listen_loop ms mc 0 0 pre = Waiting"
    by (auto simp: listen_result_def split: loop_exit.splits if_splits)
  then have "listen_loop ms mc 0 0 (pre @ Source_error # rest) = Raised"
    by (simp add: waiting_append)
  then show ?thesis by (simp add: listen_result_def)
qed

lemma listen_error:
  assumes "listen silence_value timeout timeout_value pre final_text = Pending"
  shows "listen silence_value timeout timeout_value (pre @ Source_error # rest) final_text =
           Returns None"
  using assms
  by (auto simp: listen_def listen_result_error split: chunk_count.splits if_splits)

lemma listen_count_error:
  "listen Chunks_error timeout timeout_value frames final_text = Returns None"
  "truthy timeout \<Longrightarrow>
     listen silence_value timeout Chunks_error frames final_text = Returns None"
  by (simp_all add: listen_def split: chunk_count.splits)

text \<open>
  C4 as the source has it. \<open>silence_count\<close> is the silence counter of the loop of
  \<^verbatim>\<open>listen\<close>: while the loop has not ended, it goes on from the frames read so far with
  that value, and at a \<^verbatim>\<open>break\<close> the counter has that value. A partial result with text
  makes it 0, and a silent frame (an empty partial, or a final result with no text) makes
  it one more. Let \<^verbatim>\<open>max_silence_chunks\<close> and \<^verbatim>\<open>max_chunks\<close> be the integers that the source
  computes. When the source raises no error, \<^verbatim>\<open>listen\<close> returns \<^verbatim>\<open>None\<close> exactly when the closing
  \<^verbatim>\<open>FinalResult\<close> has no text and there is a frame up to which no final result had text
  and after which the silence counter has reached \<^verbatim>\<open>max_silence_chunks\<close> or the number of
  frames read has reached the frame budget \<^verbatim>\<open>max_chunks\<close> of a truthy timeout, when that
  budget is not zero. A source error while the session is still running also makes it
  return \<^verbatim>\<open>None\<close>, and so does an exception in the computation of one of the two counts.
\<close>

theorem listen_no_speech:
  "(listen_loop ms mc s r pre = Waiting \<longrightarrow>
      listen_loop ms mc s r (pre @ fs) =
        listen_loop ms mc (silence_count s pre) (r + int (length pre)) fs) \<and>
   (listen_loop ms mc s r fs = Broke s' r' \<longrightarrow>
      (\<exists>k. 0 < k \<and> k \<le> length fs \<and> s' = silence_count s (take k fs) \<and> r' = r + int k)) \<and>
   (p \<noteq> [] \<longrightarrow> silence_count s (pre @ [Partial p]) = 0) \<and>
   (f = Partial [] \<or> f = Final [] \<longrightarrow>
      silence_count s (pre @ [f]) = silence_count s pre + 1) \<and>
   (Source_error \<notin> set frames \<longrightarrow>
      (listen (Chunks max_silence) timeout (Chunks c) frames final_text = Returns None \<longleftrightarrow>
         final_text = [] \<and>
         (\<exists>k. 0 < k \<and> k \<le> length frames \<and>
              stops max_silence (max_chunks timeout c) 0 0 (take k frames)))) \<and>
   (listen silence_value timeout timeout_value pre final_text = Pending \<longrightarrow>
      listen silence_value timeout timeout_value (pre @ Source_error # rest) final_text =
        Returns None) \<and>
   listen Chunks_error timeout timeout_value frames final_text = Returns None \<and>
   (truthy timeout \<longrightarrow>
      listen silence_value timeout Chunks_error frames final_text = Returns None)"
proof (intro conjI impI)
  assume "listen_loop ms mc s r pre = Waiting"
  then show "listen_loop ms mc s r (pre @ fs) =
      listen_loop ms mc (silence_count s pre) (r + int (length pre)) fs"
    by (rule waiting_append)
next
  assume "listen_loop ms mc s r fs = Broke s' r'"
  from broke_sound [OF this]
  show "\<exists>k. 0 < k \<and> k \<le> length fs \<and> s' = silence_count s (take k fs) \<and> r' = r + int k"
    by blast
next
  assume "p \<noteq> []"
  then show "silence_count s (pre @ [Partial p]) = 0"
    by (rule silence_count_partial_text)
next
  assume "f = Partial [] \<or> f = Final []"
  then show "silence_count s (pre @ [f]) = silence_count s pre + 1"
    by (rule silence_count_silent)
next
  assume "Source_error \<notin> set frames"
  then show "listen (Chunks max_silence) timeout (Chunks c) frames final_text = Returns None \<longleftrightarrow>
      final_text = [] \<and>
      (\<exists>k. 0 < k \<and> k \<le> length frames \<and>
           stops max_silence (max_chunks timeout c) 0 0 (take k frames))"
    by (rule listen_none_iff)
next
  assume "listen silence_value timeout timeout_value pre final_text = Pending"
  then show "listen silence_value timeout timeout_value (pre @ Source_error # rest) final_text =
      Returns None"
    by (rule listen_error)
next
  show "listen Chunks_error timeout timeout_value frames final_text = Returns None"
    by (rule listen_count_error(1))
next
  assume "truthy timeout"
  then show "listen silence_value timeout Chunks_error frames final_text = Returns None"
    by (rule listen_count_error(2))
qed

theorem listen_no_speech_witness:
  "listen_loop 2 (Some 10) 1 0 ([Partial [104]] @ [Final []]) =
     listen_loop 2 (Some 10) 0 1 [Final []] \<and>
   listen_loop 2 (Some 10) 1 0 [Final []] = Broke 2 1 \<and>
   silence_count 1 ([Partial [104]] @ [Partial [104]]) = 0 \<and>
   silence_count 1 ([Partial [104]] @ [Final []]) = 1 \<and>
   listen (Chunks 2) (Some 1) (Chunks 10) [Partial [104, 105], Partial [], Final []] [] =
     Returns None \<and>
   listen (Chunks 2) (Some 1) (Chunks 10) ([Partial [104]] @ Source_error # []) [] =
     Returns None \<and>
   listen Chunks_error (Some 1) (Chunks 10) [Partial [104, 105], Partial [], Final []] [] =
     Returns None \<and>
   listen (Chunks 2) (Some 1) Chunks_error [Partial [104, 105], Partial [], Final []] [] =
     Returns None"
proof -
  let ?frames = "[Partial [104, 105], Partial [], Final []]"
  note thm4 = listen_no_speech [where ms = 2 and mc = "Some 10" and s = 1 and r = 0
      and pre = "[Partial [104]]" and fs = "[Final []]" and s' = 2 and r' = 1 and p = "[104]"
      and f = "Final []" and frames = ?frames and max_silence = 2 and timeout = "Some 1"
      and c = 10 and final_text = "[]" and silence_value = "Chunks 2"
      and timeout_value = "Chunks 10" and rest = "[]"]
  have waiting: "listen_loop 2 (Some 10) 1 0 [Partial [104]] = Waiting"
    by (simp add: stop_check_def)
  have broke: "listen_loop 2 (Some 10) 1 0 [Final []] = Broke 2 1"
    by (simp add: stop_check_def)
  have count: "silence_count 1 [Partial [104]] = 0"
    by (simp add: silence_count_def)
  have text_p: "[104] \<noteq> ([] :: ustr)"
    by simp
  have silent: "Final [] = Partial [] \<or> Final [] = Final []"
    by simp
  have clean: "Source_error \<notin> set ?frames"
    by simp
  have "stops 2 (max_chunks (Some 1) 10) 0 0 (take 3 ?frames)"
    by (simp add: stops_def speechless_def silence_count_def stop_check_def)
  then have ex: "\<exists>k. 0 < k \<and> k \<le> length ?frames \<and>
      stops 2 (max_chunks (Some 1) 10) 0 0 (take k ?frames)"
    by (intro exI [of _ 3]) simp
  have pending: "listen (Chunks 2) (Some 1) (Chunks 10) [Partial [104]] [] = Pending"
    by (simp add: listen_def listen_result_def truthy_def stop_check_def)
  have truth: "truthy (Some 1)"
    by (simp add: truthy_def)
  from thm4 [THEN conjunct1, THEN mp, OF waiting]
    thm4 [THEN conjunct2, THEN conjunct1, THEN mp, OF broke]
    thm4 [THEN conjunct2, THEN conjunct2, THEN conjunct1, THEN mp, OF text_p]
    thm4 [THEN conjunct2, THEN conjunct2, THEN conjunct2, THEN conjunct1, THEN mp, OF silent]
    thm4 [THEN conjunct2, THEN conjunct2, THEN conjunct2, THEN conjunct2, THEN conjunct1,
      THEN mp, OF clean]
    thm4 [THEN conjunct2, THEN conjunct2, THEN conjunct2, THEN conjunct2, THEN conjunct2,
      THEN conjunct1, THEN mp, OF pending]
    thm4 [THEN conjunct2, THEN conjunct2, THEN conjunct2, THEN conjunct2, THEN conjunct2,
      THEN conjunct2, THEN conjunct1]
    thm4 [THEN conjunct2, THEN conjunct2, THEN conjunct2, THEN conjunct2, THEN conjunct2,
      THEN conjunct2, THEN conjunct2, THEN mp, OF truth]
  show ?thesis
    using ex broke count by simp
qed

text \<open>
  The claim's "iff" fails where the frame budget of the timeout ends the session. With a
  silence timeout of 3 seconds, a recording timeout of 1 second, 16000 samples per second
  and chunks of 8000 samples, \<^verbatim>\<open>max_silence_chunks\<close> is \<^verbatim>\<open>int(3 * 16000 / 8000)\<close>, which is 6,
  and \<^verbatim>\<open>max_chunks\<close> is \<^verbatim>\<open>int(1 * 16000 / 8000)\<close>, which is 2 (the quotients are the floats 6.0
  and 2.0, without rounding). Two silent frames then end the session with \<^verbatim>\<open>None\<close> while
  the silence counter is 2.
\<close>

theorem listen_budget_counterexample:
  "listen (Chunks 6) (Some 1) (Chunks 2) [Partial [], Partial []] [] = Returns None \<and>
   listen_loop 6 (Some 2) 0 0 [Partial [], Partial []] = Broke 2 2 \<and>
   silence_count 0 [Partial []] = 1 \<and> silence_count 0 [Partial [], Partial []] = 2"
  by (simp add: listen_def listen_result_def truthy_def stop_check_def silence_count_def)

section \<open>Properties of the reminder store and the reminder loop\<close>

lemma mark_each_ok:
  "mark_each No_fault n fetched table acc =
     (Inr (acc @ map item_of fetched),
      foldl (\<lambda>t row. mark_notified (rem_id row) t) table fetched)"
  by (induction fetched arbitrary: n table acc) simp_all

lemma foldl_mark_notified:
  "foldl (\<lambda>t row. mark_notified (rem_id row) t) table fetched =
     map (\<lambda>r. if rem_id r \<in> rem_id ` set fetched then r\<lparr>notified := 1\<rparr> else r) table"
proof (induction fetched arbitrary: table)
  case Nil
  show ?case by simp
next
  case (Cons row fetched)
  have "foldl (\<lambda>t row. mark_notified (rem_id row) t) (mark_notified (rem_id row) table) fetched =
      map (\<lambda>r. if rem_id r \<in> rem_id ` set fetched then r\<lparr>notified := 1\<rparr> else r)
        (mark_notified (rem_id row) table)"
    by (rule Cons.IH)
  then show ?case
    by (auto simp: mark_notified_def)
qed

lemma check_reminders_ok:
  assumes "enabled m"
  shows "check_reminders m now No_fault =
     (map item_of (select_due (rows m) now),
      m\<lparr>rows := map (\<lambda>r. if rem_id r \<in> rem_id ` set (select_due (rows m) now)
                            then r\<lparr>notified := 1\<rparr> else r) (rows m)\<rparr>,
      False)"
  using assms
  by (simp add: check_reminders_def check_reminders_try_def mark_each_ok foldl_mark_notified)

lemma set_select_due:
  "set (select_due table now) = {r \<in> set table. rem_datetime r \<le> now \<and> notified r = 0}"
  by (auto simp: select_due_def)

text \<open>
  C1. On an enabled manager, a call of \<^verbatim>\<open>check_reminders\<close> that meets no database failure
  returns the reminders with \<^verbatim>\<open>datetime <= now\<close> and \<^verbatim>\<open>notified = 0\<close>, each once, in ascending
  order of \<^verbatim>\<open>datetime\<close>, and every row with the id of a returned reminder has \<^verbatim>\<open>notified = 1\<close>
  afterwards. A second call right after it, with nothing added to the table, returns the
  empty list. Each call reads the clock itself: the second reading \<open>now2\<close> may be later
  than the first, as long as no reminder that was still waiting falls due in between.
\<close>

theorem check_reminders_exactly_once:
  assumes "enabled m"
    and "check_reminders m now1 No_fault = (first, m1, log1)"
    and "check_reminders m1 now2 No_fault = (second, m2, log2)"
    and "\<forall>r \<in> set (rows m). notified r = 0 \<and> rem_datetime r \<le> now2 \<longrightarrow> rem_datetime r \<le> now1"
  shows "mset first =
           mset (map item_of (filter (\<lambda>r. rem_datetime r \<le> now1 \<and> notified r = 0) (rows m))) \<and>
         sorted (map item_datetime first) \<and>
         second = [] \<and>
         (\<forall>r \<in> set (rows m1). rem_id r \<in> item_id ` set first \<longrightarrow> notified r = 1)"
proof -
  let ?due = "select_due (rows m) now1"
  let ?mark = "\<lambda>r. if rem_id r \<in> rem_id ` set ?due then r\<lparr>notified := 1\<rparr> else r"
  from assms(1,2) have first: "first = map item_of ?due"
    and m1: "m1 = m\<lparr>rows := map ?mark (rows m)\<rparr>"
    by (simp_all add: check_reminders_ok)
  have ids: "item_id ` set first = rem_id ` set ?due"
    by (simp add: first image_image item_of_def)
  have a: "mset first =
      mset (map item_of (filter (\<lambda>r. rem_datetime r \<le> now1 \<and> notified r = 0) (rows m)))"
    by (simp add: first select_due_def)
  have "map item_datetime first = map rem_datetime ?due"
    by (simp add: first item_of_def)
  then have b: "sorted (map item_datetime first)"
    by (simp add: select_due_def)
  from m1 assms(1) have en: "enabled m1" by simp
  have none: "filter (\<lambda>r. rem_datetime r \<le> now2 \<and> notified r = 0) (rows m1) = []"
  proof -
    have "\<not> (rem_datetime (?mark r) \<le> now2 \<and> notified (?mark r) = 0)" if "r \<in> set (rows m)" for r
    proof (cases "rem_id r \<in> rem_id ` set ?due")
      case True
      then show ?thesis by simp
    next
      case False
      then have "r \<notin> set ?due" by blast
      with that have "\<not> (rem_datetime r \<le> now1 \<and> notified r = 0)"
        by (simp add: set_select_due)
      with assms(4) that have "\<not> (rem_datetime r \<le> now2 \<and> notified r = 0)"
        by blast
      with False show ?thesis by simp
    qed
    then have "\<forall>x \<in> set (map ?mark (rows m)). \<not> (rem_datetime x \<le> now2 \<and> notified x = 0)"
      unfolding set_map by blast
    moreover have "rows m1 = map ?mark (rows m)"
      by (simp add: m1)
    ultimately show ?thesis
      unfolding filter_empty_conv by simp
  qed
  from en assms(3) have "second = map item_of (select_due (rows m1) now2)"
    by (simp add: check_reminders_ok)
  with none have c: "second = []"
    by (simp add: select_due_def)
  have d: "\<forall>r \<in> set (rows m1). rem_id r \<in> item_id ` set first \<longrightarrow> notified r = 1"
    by (auto simp: m1 ids)
  from a b c d show ?thesis by blast
qed


theorem check_reminders_exactly_once_witness:
  "check_reminders
     \<lparr>enabled = True,
      rows = [\<lparr>rem_id = 1, rem_text = [104, 105], rem_datetime = 90, created_at = 10, notified = 0\<rparr>,
              \<lparr>rem_id = 2, rem_text = [98], rem_datetime = 50, created_at = 20, notified = 0\<rparr>,
              \<lparr>rem_id = 3, rem_text = [99], rem_datetime = 40, created_at = 30, notified = 1\<rparr>,
              \<lparr>rem_id = 4, rem_text = [100], rem_datetime = 200, created_at = 30, notified = 0\<rparr>],
      last_id = 4\<rparr> 100 No_fault =
     ([\<lparr>item_id = 2, item_text = [98], item_datetime = 50\<rparr>,
       \<lparr>item_id = 1, item_text = [104, 105], item_datetime = 90\<rparr>],
      \<lparr>enabled = True,
       rows = [\<lparr>rem_id = 1, rem_text = [104, 105], rem_datetime = 90, created_at = 10, notified = 1\<rparr>,
               \<lparr>rem_id = 2, rem_text = [98], rem_datetime = 50, created_at = 20, notified = 1\<rparr>,
               \<lparr>rem_id = 3, rem_text = [99], rem_datetime = 40, created_at = 30, notified = 1\<rparr>,
               \<lparr>rem_id = 4, rem_text = [100], rem_datetime = 200, created_at = 30, notified = 0\<rparr>],
       last_id = 4\<rparr>, False) \<and>
   fst (check_reminders
     \<lparr>enabled = True,
      rows = [\<lparr>rem_id = 1, rem_text = [104, 105], rem_datetime = 90, created_at = 10, notified = 1\<rparr>,
              \<lparr>rem_id = 2, rem_text = [98], rem_datetime = 50, created_at = 20, notified = 1\<rparr>,
              \<lparr>rem_id = 3, rem_text = [99], rem_datetime = 40, created_at = 30, notified = 1\<rparr>,
              \<lparr>rem_id = 4, rem_text = [100], rem_datetime = 200, created_at = 30, notified = 0\<rparr>],
      last_id = 4\<rparr> 105 No_fault) = []"
proof -
  let ?m = "\<lparr>enabled = True,
      rows = [\<lparr>rem_id = 1, rem_text = [104, 105], rem_datetime = 90, created_at = 10, notified = 0\<rparr>,
              \<lparr>rem_id = 2, rem_text = [98], rem_datetime = 50, created_at = 20, notified = 0\<rparr>,
              \<lparr>rem_id = 3, rem_text = [99], rem_datetime = 40, created_at = 30, notified = 1\<rparr>,
              \<lparr>rem_id = 4, rem_text = [100], rem_datetime = 200, created_at = 30, notified = 0\<rparr>],
      last_id = 4\<rparr>"
  let ?m1 = "\<lparr>enabled = True,
       rows = [\<lparr>rem_id = 1, rem_text = [104, 105], rem_datetime = 90, created_at = 10, notified = 1\<rparr>,
               \<lparr>rem_id = 2, rem_text = [98], rem_datetime = 50, created_at = 20, notified = 1\<rparr>,
               \<lparr>rem_id = 3, rem_text = [99], rem_datetime = 40, created_at = 30, notified = 1\<rparr>,
               \<lparr>rem_id = 4, rem_text = [100], rem_datetime = 200, created_at = 30, notified = 0\<rparr>],
       last_id = 4\<rparr>"
  let ?first = "[\<lparr>item_id = 2, item_text = [98], item_datetime = 50\<rparr>,
       \<lparr>item_id = 1, item_text = [104, 105], item_datetime = 90\<rparr>]"
  have en: "enabled ?m"
    by simp
  have one: "check_reminders ?m 100 No_fault = (?first, ?m1, False)"
    by (simp add: check_reminders_def check_reminders_try_def select_due_def
        mark_notified_def item_of_def)
  obtain second m2 log2 where two: "check_reminders ?m1 105 No_fault = (second, m2, log2)"
    by (cases "check_reminders ?m1 105 No_fault") auto
  have between: "\<forall>r \<in> set (rows ?m).
      notified r = 0 \<and> rem_datetime r \<le> 105 \<longrightarrow> rem_datetime r \<le> 100"
    by simp
  from check_reminders_exactly_once [OF en one two between] have "second = []"
    by blast
  with one two show ?thesis
    by simp
qed

lemma speak_all_spoken:
  "list_all is_spoken (fst (speak_all sf n ds))"
proof (induction ds arbitrary: n)
  case Nil
  show ?case by simp
next
  case (Cons d ds)
  from Cons [of "Suc n"] show ?case
    by (cases "speak_all sf (Suc n) ds") (auto simp: is_spoken_def)
qed

lemma filter_spoken:
  assumes "list_all is_spoken es"
  shows "filter is_poll es = []" and "filter (\<lambda>e. e = Sleeps iv) es = []"
  using assms
  by (induction es) (auto simp: is_spoken_def is_poll_def split: sched_event.splits)

lemma reminder_checker_cycle:
  assumes "running c"
  shows "\<exists>evs. reminder_checker iv m (c # cs) =
           (Polled (fst (check_reminders m (poll_time c) (poll_fault c))) # evs @
              Sleeps iv # fst (reminder_checker iv
                (fst (snd (check_reminders m (poll_time c) (poll_fault c)))) cs),
            snd (reminder_checker iv
                (fst (snd (check_reminders m (poll_time c) (poll_fault c)))) cs)) \<and>
         filter is_poll evs = [] \<and> filter (\<lambda>e. e = Sleeps iv) evs = [] \<and>
         (Logged_error \<in> set evs \<longleftrightarrow>
            snd (snd (check_reminders m (poll_time c) (poll_fault c))) \<or>
            snd (speak_all (speak_fault c) 0
              (fst (check_reminders m (poll_time c) (poll_fault c)))))"
proof -
  obtain due m' logged where chk: "check_reminders m (poll_time c) (poll_fault c) = (due, m', logged)"
    by (cases "check_reminders m (poll_time c) (poll_fault c)") auto
  obtain spoken raised where sp: "speak_all (speak_fault c) 0 due = (spoken, raised)"
    by (cases "speak_all (speak_fault c) 0 due") auto
  obtain es m'' st where rest: "reminder_checker iv m' cs = (es, m'', st)"
    by (cases "reminder_checker iv m' cs") auto
  let ?evs = "(if logged then [Logged_error] else []) @ spoken @
      (if raised then [Logged_error] else [])"
  have all: "list_all is_spoken spoken"
    using speak_all_spoken [of "speak_fault c" 0 due] sp by simp
  have "reminder_checker iv m (c # cs) = (Polled due # ?evs @ Sleeps iv # es, m'', st)"
    using assms chk sp rest by simp
  moreover have "filter is_poll ?evs = []"
    using filter_spoken(1) [OF all] by (simp add: is_poll_def)
  moreover have "filter (\<lambda>e. e = Sleeps iv) ?evs = []"
    using filter_spoken(2) [OF all] by simp
  moreover have "Logged_error \<notin> set spoken"
    using all by (auto simp: list_all_iff is_spoken_def)
  then have "Logged_error \<in> set ?evs \<longleftrightarrow> logged \<or> raised"
    by auto
  ultimately show ?thesis
    using chk sp rest by (intro exI [of _ ?evs]) simp
qed

lemma reminder_checker_alive:
  assumes "\<forall>c \<in> set cs. running c"
  shows "snd (snd (reminder_checker iv m cs)) = Pending \<and>
         length (filter is_poll (fst (reminder_checker iv m cs))) = length cs \<and>
         length (filter (\<lambda>e. e = Sleeps iv) (fst (reminder_checker iv m cs))) = length cs"
  using assms
proof (induction cs arbitrary: m)
  case Nil
  show ?case by simp
next
  case (Cons c cs)
  then have run: "running c" by simp
  let ?m' = "fst (snd (check_reminders m (poll_time c) (poll_fault c)))"
  from reminder_checker_cycle [OF run, of iv m cs]
  obtain evs where step: "reminder_checker iv m (c # cs) =
      (Polled (fst (check_reminders m (poll_time c) (poll_fault c))) # evs @
         Sleeps iv # fst (reminder_checker iv ?m' cs),
       snd (reminder_checker iv ?m' cs))"
    and np: "filter is_poll evs = []" and ns: "filter (\<lambda>e. e = Sleeps iv) evs = []"
    by blast
  from Cons have IH: "snd (snd (reminder_checker iv ?m' cs)) = Pending \<and>
      length (filter is_poll (fst (reminder_checker iv ?m' cs))) = length cs \<and>
      length (filter (\<lambda>e. e = Sleeps iv) (fst (reminder_checker iv ?m' cs))) = length cs"
    by simp
  have "is_poll (Polled (fst (check_reminders m (poll_time c) (poll_fault c))))"
    and "\<not> is_poll (Sleeps iv)"
    by (simp_all add: is_poll_def)
  then show ?case
    unfolding step using IH np ns by simp
qed


lemma check_reminders_failed:
  assumes "enabled m" and "fst (check_reminders_try m now fault) = Inl e"
  shows "fst (check_reminders m now fault) = [] \<and> snd (snd (check_reminders m now fault))"
  using assms
  by (cases "check_reminders_try m now fault") (auto simp: check_reminders_def)

text \<open>
  C3. As long as \<^verbatim>\<open>self.running\<close> is true at each loop test, \<^verbatim>\<open>_reminder_checker\<close> has not
  returned, whatever database failures and \<^verbatim>\<open>speak\<close> failures the cycles met: it has
  polled once and slept \<^verbatim>\<open>check_interval\<close> once in each cycle. A poll that meets a
  database failure returns the empty list and logs the error. Whatever happened in one
  cycle, an error is in the trace exactly when the poll or a \<^verbatim>\<open>speak\<close> failed, the sleep
  follows, and the next cycle starts with an ordinary call of \<^verbatim>\<open>check_reminders\<close> on the
  store as the cycle before left it.
\<close>

theorem reminder_checker_survives:
  "((\<forall>c \<in> set cs. running c) \<longrightarrow>
      snd (snd (reminder_checker iv m cs)) = Pending \<and>
      length (filter is_poll (fst (reminder_checker iv m cs))) = length cs \<and>
      length (filter (\<lambda>e. e = Sleeps iv) (fst (reminder_checker iv m cs))) = length cs) \<and>
   (enabled m \<and> fst (check_reminders_try m now fault) = Inl e \<longrightarrow>
      fst (check_reminders m now fault) = [] \<and> snd (snd (check_reminders m now fault))) \<and>
   (running c1 \<and> running c2 \<longrightarrow>
      (\<exists>evs rest.
         fst (reminder_checker iv m (c1 # c2 # cs)) =
           Polled (fst (check_reminders m (poll_time c1) (poll_fault c1))) # evs @
           Sleeps iv #
           Polled (fst (check_reminders
             (fst (snd (check_reminders m (poll_time c1) (poll_fault c1))))
             (poll_time c2) (poll_fault c2))) # rest \<and>
         filter is_poll evs = [] \<and> filter (\<lambda>e. e = Sleeps iv) evs = [] \<and>
         (Logged_error \<in> set evs \<longleftrightarrow>
            snd (snd (check_reminders m (poll_time c1) (poll_fault c1))) \<or>
            snd (speak_all (speak_fault c1) 0
              (fst (check_reminders m (poll_time c1) (poll_fault c1)))))))"
proof (intro conjI impI)
  assume "\<forall>c \<in> set cs. running c"
  then show "snd (snd (reminder_checker iv m cs)) = Pending"
    and "length (filter is_poll (fst (reminder_checker iv m cs))) = length cs"
    and "length (filter (\<lambda>e. e = Sleeps iv) (fst (reminder_checker iv m cs))) = length cs"
    using reminder_checker_alive [of cs iv m] by simp_all
next
  assume "enabled m \<and> fst (check_reminders_try m now fault) = Inl e"
  then show "fst (check_reminders m now fault) = []"
    and "snd (snd (check_reminders m now fault))"
    using check_reminders_failed [of m now fault e] by simp_all
next
  assume run: "running c1 \<and> running c2"
  let ?m1 = "fst (snd (check_reminders m (poll_time c1) (poll_fault c1)))"
  let ?m2 = "fst (snd (check_reminders ?m1 (poll_time c2) (poll_fault c2)))"
  from run reminder_checker_cycle [of c1 iv m "c2 # cs"]
  obtain evs where one: "reminder_checker iv m (c1 # c2 # cs) =
      (Polled (fst (check_reminders m (poll_time c1) (poll_fault c1))) # evs @
         Sleeps iv # fst (reminder_checker iv ?m1 (c2 # cs)),
       snd (reminder_checker iv ?m1 (c2 # cs)))"
    and quiet: "filter is_poll evs = []" "filter (\<lambda>e. e = Sleeps iv) evs = []"
    and logged: "Logged_error \<in> set evs \<longleftrightarrow>
        snd (snd (check_reminders m (poll_time c1) (poll_fault c1))) \<or>
        snd (speak_all (speak_fault c1) 0
          (fst (check_reminders m (poll_time c1) (poll_fault c1))))"
    by blast
  from run reminder_checker_cycle [of c2 iv ?m1 cs]
  obtain evs2 where two: "reminder_checker iv ?m1 (c2 # cs) =
      (Polled (fst (check_reminders ?m1 (poll_time c2) (poll_fault c2))) # evs2 @
         Sleeps iv # fst (reminder_checker iv ?m2 cs),
       snd (reminder_checker iv ?m2 cs))"
    by blast
  have "fst (reminder_checker iv m (c1 # c2 # cs)) =
      Polled (fst (check_reminders m (poll_time c1) (poll_fault c1))) # evs @
      Sleeps iv #
      Polled (fst (check_reminders ?m1 (poll_time c2) (poll_fault c2))) #
      (evs2 @ Sleeps iv # fst (reminder_checker iv ?m2 cs))"
    by (simp only: one two fst_conv)
  with quiet logged show "\<exists>evs rest.
      fst (reminder_checker iv m (c1 # c2 # cs)) =
        Polled (fst (check_reminders m (poll_time c1) (poll_fault c1))) # evs @
        Sleeps iv #
        Polled (fst (check_reminders ?m1 (poll_time c2) (poll_fault c2))) # rest \<and>
      filter is_poll evs = [] \<and> filter (\<lambda>e. e = Sleeps iv) evs = [] \<and>
      (Logged_error \<in> set evs \<longleftrightarrow>
         snd (snd (check_reminders m (poll_time c1) (poll_fault c1))) \<or>
         snd (speak_all (speak_fault c1) 0
           (fst (check_reminders m (poll_time c1) (poll_fault c1)))))"
    by blast
qed

theorem reminder_checker_survives_witness:
  "snd (snd (reminder_checker 60
     \<lparr>enabled = True,
      rows = [\<lparr>rem_id = 1, rem_text = [104, 105], rem_datetime = 90, created_at = 10, notified = 0\<rparr>],
      last_id = 1\<rparr>
     [\<lparr>running = True, poll_time = 100, poll_fault = Execute_fails 0, speak_fault = None\<rparr>,
      \<lparr>running = True, poll_time = 160, poll_fault = No_fault, speak_fault = Some 0\<rparr>,
      \<lparr>running = True, poll_time = 220, poll_fault = No_fault, speak_fault = None\<rparr>])) = Pending \<and>
   length (filter is_poll (fst (reminder_checker 60
     \<lparr>enabled = True,
      rows = [\<lparr>rem_id = 1, rem_text = [104, 105], rem_datetime = 90, created_at = 10, notified = 0\<rparr>],
      last_id = 1\<rparr>
     [\<lparr>running = True, poll_time = 100, poll_fault = Execute_fails 0, speak_fault = None\<rparr>,
      \<lparr>running = True, poll_time = 160, poll_fault = No_fault, speak_fault = Some 0\<rparr>,
      \<lparr>running = True, poll_time = 220, poll_fault = No_fault, speak_fault = None\<rparr>]))) = 3 \<and>
   fst (check_reminders
     \<lparr>enabled = True,
      rows = [\<lparr>rem_id = 1, rem_text = [104, 105], rem_datetime = 90, created_at = 10, notified = 0\<rparr>],
      last_id = 1\<rparr> 100 (Execute_fails 0)) = [] \<and>
   (\<exists>evs rest. fst (reminder_checker 60
     \<lparr>enabled = True,
      rows = [\<lparr>rem_id = 1, rem_text = [104, 105], rem_datetime = 90, created_at = 10, notified = 0\<rparr>],
      last_id = 1\<rparr>
     [\<lparr>running = True, poll_time = 100, poll_fault = Execute_fails 0, speak_fault = None\<rparr>,
      \<lparr>running = True, poll_time = 160, poll_fault = No_fault, speak_fault = Some 0\<rparr>,
      \<lparr>running = True, poll_time = 220, poll_fault = No_fault, speak_fault = None\<rparr>]) =
     Polled [] # evs @ Sleeps 60 #
     Polled [\<lparr>item_id = 1, item_text = [104, 105], item_datetime = 90\<rparr>] # rest \<and>
     Logged_error \<in> set evs)"
proof -
  let ?m = "\<lparr>enabled = True,
      rows = [\<lparr>rem_id = 1, rem_text = [104, 105], rem_datetime = 90, created_at = 10, notified = 0\<rparr>],
      last_id = 1\<rparr>"
  let ?c1 = "\<lparr>running = True, poll_time = 100, poll_fault = Execute_fails 0, speak_fault = None\<rparr>"
  let ?c2 = "\<lparr>running = True, poll_time = 160, poll_fault = No_fault, speak_fault = Some 0\<rparr>"
  let ?c3 = "\<lparr>running = True, poll_time = 220, poll_fault = No_fault, speak_fault = None\<rparr>"
  have run: "\<forall>c \<in> set [?c1, ?c2, ?c3]. running c"
    by simp
  have run12: "running ?c1 \<and> running ?c2"
    by simp
  have failed: "enabled ?m \<and> fst (check_reminders_try ?m 100 (Execute_fails 0)) = Inl Db_error"
    by (simp add: check_reminders_try_def)
  have len: "length [?c1, ?c2, ?c3] = 3"
    by simp
  have one: "check_reminders ?m 100 (Execute_fails 0) = ([], ?m, True)"
    by (simp add: check_reminders_def check_reminders_try_def)
  have two: "fst (check_reminders ?m 160 No_fault) =
      [\<lparr>item_id = 1, item_text = [104, 105], item_datetime = 90\<rparr>]"
    by (simp add: check_reminders_def check_reminders_try_def select_due_def item_of_def)
  have cycles: "poll_time ?c1 = 100" "poll_fault ?c1 = Execute_fails 0" "speak_fault ?c1 = None"
    "poll_time ?c2 = 160" "poll_fault ?c2 = No_fault"
    by simp_all
  note all_cycles = reminder_checker_survives [of "[?c1, ?c2, ?c3]" 60 ?m 100 "Execute_fails 0" Db_error]
  note two_cycles = reminder_checker_survives [of "[?c3]" 60 ?m 100 "Execute_fails 0" Db_error ?c1 ?c2]
  from two_cycles [THEN conjunct2, THEN conjunct2, THEN mp, OF run12]
  have "\<exists>evs rest. fst (reminder_checker 60 ?m [?c1, ?c2, ?c3]) =
      Polled [] # evs @ Sleeps 60 #
      Polled [\<lparr>item_id = 1, item_text = [104, 105], item_datetime = 90\<rparr>] # rest \<and>
      Logged_error \<in> set evs"
    unfolding cycles one fst_conv snd_conv two by blast
  with all_cycles [THEN conjunct1, THEN mp, OF run]
    all_cycles [THEN conjunct2, THEN conjunct1, THEN mp, OF failed]
  show ?thesis
    unfolding len by blast
qed

section \<open>Properties of the parser of time expressions\<close>

lemma parse_loop_find:
  "parse_loop U now text_in lowered pats =
     (case find (\<lambda>p. re_search U (snd p) lowered \<noteq> None) pats of
        None \<Rightarrow> Inr (None, text_in)
      | Some p \<Rightarrow>
          (case remind_time_of U (fst p) now (the (re_search U (snd p) lowered)) of
             Inl e \<Rightarrow> Inl e
           | Inr t \<Rightarrow> Inr (Some t, py_strip U (re_sub U (snd p) lowered))))"
  by (induction pats) (auto split: option.splits sum.splits)

lemma parse_no_match:
  assumes "\<forall>p \<in> set patterns. re_search U (snd p) (u_lower U text_in) = None"
  shows "parse_reminder_from_text U now text_in = Inr (None, text_in)"
proof -
  from assms have "find (\<lambda>p. re_search U (snd p) (u_lower U text_in) \<noteq> None) patterns = None"
    by (auto simp: find_None_iff)
  then show ?thesis
    by (simp add: parse_reminder_from_text_def parse_loop_find)
qed

lemma parse_match:
  assumes "\<exists>p \<in> set patterns. re_search U (snd p) (u_lower U text_in) \<noteq> None"
    and "parse_reminder_from_text U now text_in = Inr (t, body)"
  shows "t \<noteq> None \<and>
         (\<exists>p \<in> set patterns. re_search U (snd p) (u_lower U text_in) \<noteq> None \<and>
            body = py_strip U (re_sub U (snd p) (u_lower U text_in)))"
proof -
  from assms(1) obtain p
    where p: "find (\<lambda>p. re_search U (snd p) (u_lower U text_in) \<noteq> None) patterns = Some p"
    by (cases "find (\<lambda>p. re_search U (snd p) (u_lower U text_in) \<noteq> None) patterns")
       (auto simp: find_None_iff)
  then have "p \<in> set patterns" and "re_search U (snd p) (u_lower U text_in) \<noteq> None"
    by (auto simp: find_Some_iff)
  moreover from p assms(2) have "t \<noteq> None"
    and "body = py_strip U (re_sub U (snd p) (u_lower U text_in))"
    by (auto simp: parse_reminder_from_text_def parse_loop_find split: sum.splits)
  ultimately show ?thesis by blast
qed

lemma parse_depends_on_lower:
  assumes "\<exists>p \<in> set patterns. re_search U (snd p) (u_lower U text_in) \<noteq> None"
    and "u_lower U other = u_lower U text_in"
  shows "parse_reminder_from_text U now other = parse_reminder_from_text U now text_in"
proof -
  from assms(1) obtain p
    where "find (\<lambda>p. re_search U (snd p) (u_lower U text_in) \<noteq> None) patterns = Some p"
    by (cases "find (\<lambda>p. re_search U (snd p) (u_lower U text_in) \<noteq> None) patterns")
       (auto simp: find_None_iff)
  with assms(2) show ?thesis
    by (simp add: parse_reminder_from_text_def parse_loop_find)
qed

text \<open>
  C10. When one of the four expressions matches the lower-cased command, the text that
  \<^verbatim>\<open>parse_reminder_from_text\<close> returns with the time is \<^verbatim>\<open>text.lower()\<close> with one matched span
  cut out and the ends stripped, and the whole result is the same for any two commands
  with the same lower-cased text: the letter case of the command is lost. When no
  expression matches, the result is \<^verbatim>\<open>(None, text)\<close> with the command as it came.
\<close>

theorem parse_text_lower_cased:
  "((\<forall>p \<in> set patterns. re_search U (snd p) (u_lower U text_in) = None) \<longrightarrow>
      parse_reminder_from_text U now text_in = Inr (None, text_in)) \<and>
   ((\<exists>p \<in> set patterns. re_search U (snd p) (u_lower U text_in) \<noteq> None) \<longrightarrow>
      (\<forall>t body. parse_reminder_from_text U now text_in = Inr (t, body) \<longrightarrow>
         t \<noteq> None \<and>
         (\<exists>p \<in> set patterns. re_search U (snd p) (u_lower U text_in) \<noteq> None \<and>
            body = py_strip U (re_sub U (snd p) (u_lower U text_in)))) \<and>
      (\<forall>other. u_lower U other = u_lower U text_in \<longrightarrow>
         parse_reminder_from_text U now other = parse_reminder_from_text U now text_in))"
  using parse_no_match [of U text_in now] parse_match [of U text_in now]
    parse_depends_on_lower [of U text_in _ now]
  by blast

lemma usec_values:
  "usec_per_hour = 60 * usec_per_minute" "usec_per_day = 24 * usec_per_hour"
  by (simp_all add: usec_per_minute_def usec_per_hour_def usec_per_day_def)

lemma today_at_bounds:
  assumes "h \<le> 23" and "m \<le> 59"
  shows "day_start now \<le> today_at now h m" and "today_at now h m < day_start now + usec_per_day"
    and "day_start now \<le> now"
  using assms
  by (simp_all add: today_at_def day_start_def usec_per_minute_def usec_per_hour_def
      usec_per_day_def)

lemma remind_time_v_vremya:
  assumes "groups mo = [hh, mm]" and "py_int U hh \<le> 23" and "py_int U mm \<le> 59"
    and "now + usec_per_day \<le> datetime_max"
  shows "remind_time_of U V_vremya now mo =
           Inr (if today_at now (py_int U hh) (py_int U mm) < now
                then today_at now (py_int U hh) (py_int U mm) + usec_per_day
                else today_at now (py_int U hh) (py_int U mm))"
proof -
  from assms(2,3) have "today_at now (py_int U hh) (py_int U mm) < day_start now + usec_per_day"
    and "day_start now \<le> now"
    by (rule today_at_bounds)+
  with assms show ?thesis
    by (simp add: remind_time_of_def group_def replace_hm_def timedelta_add_def)
qed

text \<open>
  The branch of the rule \<^verbatim>\<open>'zavtra_v'\<close> itself adds one day whatever the time of day. The
  section on the order of the rules shows that the loop never reaches it.
\<close>

lemma remind_time_zavtra_v:
  assumes "groups mo = [hh, mm]" and "py_int U hh \<le> 23" and "py_int U mm \<le> 59"
    and "now + 2 * usec_per_day \<le> datetime_max"
  shows "remind_time_of U Zavtra_v now mo =
           Inr (today_at now (py_int U hh) (py_int U mm) + usec_per_day)"
proof -
  from assms(2,3) have "today_at now (py_int U hh) (py_int U mm) < day_start now + usec_per_day"
    and "day_start now \<le> now"
    by (rule today_at_bounds)+
  with assms show ?thesis
    by (simp add: remind_time_of_def group_def replace_hm_def timedelta_add_def)
qed

lemma parse_v_vremya:
  assumes "re_search U re_cherez_minut (u_lower U text_in) = None"
    and "re_search U re_cherez_chasov (u_lower U text_in) = None"
    and "re_search U re_v_vremya (u_lower U text_in) = Some mo"
    and "groups mo = [hh, mm]" and "py_int U hh \<le> 23" and "py_int U mm \<le> 59"
    and "now + usec_per_day \<le> datetime_max"
  shows "parse_reminder_from_text U now text_in =
           Inr (Some (if today_at now (py_int U hh) (py_int U mm) < now
                      then today_at now (py_int U hh) (py_int U mm) + usec_per_day
                      else today_at now (py_int U hh) (py_int U mm)),
                py_strip U (re_sub U re_v_vremya (u_lower U text_in)))"
  using assms(1,2,3) remind_time_v_vremya [OF assms(4,5,6,7)]
  by (simp add: parse_reminder_from_text_def patterns_def)

text \<open>The two example commands with a clock time, evaluated.\<close>

lemma lower_say_at_8: "u_lower ascii_russian say_at_8 = say_at_8"
  by (simp add: say_at_8_def napomni_def ascii_def ascii_russian_def)

lemma search_say_at_8:
  "re_search ascii_russian re_cherez_minut say_at_8 = None"
  "re_search ascii_russian re_cherez_chasov say_at_8 = None"
  "re_search ascii_russian re_v_vremya say_at_8 =
     Some \<lparr>span_start = 8, span_end = 14, groups = [[0x38], [0x30, 0x30]]\<rparr>"
  by (simp_all add: re_search_def re_cherez_minut_def re_cherez_chasov_def re_v_vremya_def
      say_at_8_def napomni_def ascii_def ascii_russian_def)

lemma py_int_examples:
  "py_int ascii_russian [0x38] = 8" "py_int ascii_russian [0x39] = 9"
  "py_int ascii_russian [0x35] = 5" "py_int ascii_russian [0x30, 0x30] = 0"
  by (simp_all add: py_int_def ascii_russian_def)

lemma lower_say_tomorrow_at_9: "u_lower ascii_russian say_tomorrow_at_9 = say_tomorrow_at_9"
  by (simp add: say_tomorrow_at_9_def napomni_def zavtra_def pozvonit_def ascii_def
      ascii_russian_def)

lemma search_say_tomorrow_at_9:
  "re_search ascii_russian re_cherez_minut say_tomorrow_at_9 = None"
  "re_search ascii_russian re_cherez_chasov say_tomorrow_at_9 = None"
  "re_search ascii_russian re_v_vremya say_tomorrow_at_9 =
     Some \<lparr>span_start = 15, span_end = 21, groups = [[0x39], [0x30, 0x30]]\<rparr>"
  "re_search ascii_russian re_zavtra_v say_tomorrow_at_9 =
     Some \<lparr>span_start = 8, span_end = 21, groups = [[0x39], [0x30, 0x30]]\<rparr>"
  by (simp_all add: re_search_def re_cherez_minut_def re_cherez_chasov_def re_v_vremya_def
      re_zavtra_v_def say_tomorrow_at_9_def napomni_def zavtra_def pozvonit_def ascii_def
      ascii_russian_def)

lemma strip_say_tomorrow_at_9:
  "py_strip ascii_russian (re_sub ascii_russian re_v_vremya say_tomorrow_at_9) =
     napomni @ ascii '' '' @ zavtra @ ascii ''  '' @ pozvonit"
  by (simp add: re_sub_def search_say_tomorrow_at_9 py_strip_def)
     (simp add: say_tomorrow_at_9_def napomni_def zavtra_def pozvonit_def ascii_def
       ascii_russian_def)

text \<open>
  C8. When neither "in N minutes" nor "in N hours" matches and the "at HH:MM" rule
  matches with an hour up to 23 and a minute up to 59, the time is today at HH:MM, or
  the same time tomorrow when today at HH:MM is already past. So
  \<^verbatim>\<open>"napomni v 8:00 zaryadku"\<close>, parsed at 20:00 of any day, gives 08:00 of the next day.
  (An hour above 23 or a minute above 59 makes \<^verbatim>\<open>replace\<close> raise \<^verbatim>\<open>ValueError\<close>, and the last
  day of the calendar has no tomorrow.)
\<close>

theorem parse_at_time:
  "(re_search U re_cherez_minut (u_lower U text_in) = None \<and>
    re_search U re_cherez_chasov (u_lower U text_in) = None \<and>
    re_search U re_v_vremya (u_lower U text_in) = Some mo \<and>
    groups mo = [hh, mm] \<and> py_int U hh \<le> 23 \<and> py_int U mm \<le> 59 \<and>
    now + usec_per_day \<le> datetime_max \<longrightarrow>
      (\<exists>body. parse_reminder_from_text U now text_in =
         Inr (Some (if today_at now (py_int U hh) (py_int U mm) < now
                    then today_at now (py_int U hh) (py_int U mm) + usec_per_day
                    else today_at now (py_int U hh) (py_int U mm)), body))) \<and>
   (at_20 mod usec_per_day = 20 * usec_per_hour \<and> at_20 + usec_per_day \<le> datetime_max \<longrightarrow>
      (\<exists>body. parse_reminder_from_text ascii_russian at_20 say_at_8 =
         Inr (Some (day_start at_20 + usec_per_day + 8 * usec_per_hour), body)))"
proof (intro conjI impI)
  assume "re_search U re_cherez_minut (u_lower U text_in) = None \<and>
    re_search U re_cherez_chasov (u_lower U text_in) = None \<and>
    re_search U re_v_vremya (u_lower U text_in) = Some mo \<and>
    groups mo = [hh, mm] \<and> py_int U hh \<le> 23 \<and> py_int U mm \<le> 59 \<and>
    now + usec_per_day \<le> datetime_max"
  then show "\<exists>body. parse_reminder_from_text U now text_in =
      Inr (Some (if today_at now (py_int U hh) (py_int U mm) < now
                 then today_at now (py_int U hh) (py_int U mm) + usec_per_day
                 else today_at now (py_int U hh) (py_int U mm)), body)"
    using parse_v_vremya [of U text_in mo hh mm now] by blast
next
  assume at: "at_20 mod usec_per_day = 20 * usec_per_hour \<and>
    at_20 + usec_per_day \<le> datetime_max"
  let ?mo = "\<lparr>span_start = 8, span_end = 14, groups = [[0x38], [0x30, 0x30]]\<rparr>"
  have today: "today_at at_20 8 0 = day_start at_20 + 8 * usec_per_hour"
    by (simp add: today_at_def)
  from at have "day_start at_20 + 20 * usec_per_hour = at_20"
    by (simp add: day_start_def) (metis mod_less_eq_dividend le_add_diff_inverse2)
  then have past: "today_at at_20 8 0 < at_20"
    by (simp add: today usec_per_hour_def)
  have "parse_reminder_from_text ascii_russian at_20 say_at_8 =
      Inr (Some (if today_at at_20 (py_int ascii_russian [0x38]) (py_int ascii_russian [0x30, 0x30])
                    < at_20
                 then today_at at_20 (py_int ascii_russian [0x38])
                        (py_int ascii_russian [0x30, 0x30]) + usec_per_day
                 else today_at at_20 (py_int ascii_russian [0x38])
                        (py_int ascii_russian [0x30, 0x30])),
           py_strip ascii_russian (re_sub ascii_russian re_v_vremya
             (u_lower ascii_russian say_at_8)))"
    using at by (intro parse_v_vremya [where mo = ?mo])
      (simp_all add: lower_say_at_8 search_say_at_8 py_int_examples)
  with past today show "\<exists>body. parse_reminder_from_text ascii_russian at_20 say_at_8 =
      Inr (Some (day_start at_20 + usec_per_day + 8 * usec_per_hour), body)"
    by (simp add: py_int_examples)
qed

theorem parse_at_time_witness:
  "(\<exists>body. parse_reminder_from_text ascii_russian (jan_15 + 6 * usec_per_hour) say_at_8 =
      Inr (Some (jan_15 + 8 * usec_per_hour), body)) \<and>
   (\<exists>body. parse_reminder_from_text ascii_russian (jan_15 + 20 * usec_per_hour) say_at_8 =
      Inr (Some (jan_15 + usec_per_day + 8 * usec_per_hour), body))"
proof -
  let ?at_6 = "jan_15 + 6 * usec_per_hour"
  let ?at_20 = "jan_15 + 20 * usec_per_hour"
  let ?mo = "\<lparr>span_start = 8, span_end = 14, groups = [[0x38], [0x30, 0x30]]\<rparr>"
  have rule: "re_search ascii_russian re_cherez_minut (u_lower ascii_russian say_at_8) = None \<and>
      re_search ascii_russian re_cherez_chasov (u_lower ascii_russian say_at_8) = None \<and>
      re_search ascii_russian re_v_vremya (u_lower ascii_russian say_at_8) = Some ?mo \<and>
      groups ?mo = [[0x38], [0x30, 0x30]] \<and>
      py_int ascii_russian [0x38] \<le> 23 \<and> py_int ascii_russian [0x30, 0x30] \<le> 59 \<and>
      ?at_6 + usec_per_day \<le> datetime_max"
    by (simp add: lower_say_at_8 search_say_at_8 py_int_examples jan_15_def datetime_max_def
        usec_per_day_def usec_per_hour_def)
  have today: "today_at ?at_6 (py_int ascii_russian [0x38]) (py_int ascii_russian [0x30, 0x30]) =
      jan_15 + 8 * usec_per_hour"
    by (simp add: py_int_examples today_at_def day_start_def jan_15_def usec_per_day_def
        usec_per_hour_def)
  have later: "\<not> jan_15 + 8 * usec_per_hour < ?at_6"
    by (simp add: usec_per_hour_def)
  have m: "?at_20 mod usec_per_day = 20 * usec_per_hour"
    by (simp add: jan_15_def usec_per_day_def usec_per_hour_def)
  have range: "?at_20 + usec_per_day \<le> datetime_max"
    by (simp add: jan_15_def datetime_max_def usec_per_day_def usec_per_hour_def)
  have start: "day_start ?at_20 = jan_15"
    by (simp add: day_start_def m)
  from parse_at_time [of ascii_russian say_at_8 ?mo "[0x38]" "[0x30, 0x30]" ?at_6,
      THEN conjunct1, THEN mp, OF rule]
  have "\<exists>body. parse_reminder_from_text ascii_russian ?at_6 say_at_8 =
      Inr (Some (jan_15 + 8 * usec_per_hour), body)"
    unfolding today using later by simp
  moreover from parse_at_time [THEN conjunct2, of ?at_20] m range start
  have "\<exists>body. parse_reminder_from_text ascii_russian ?at_20 say_at_8 =
      Inr (Some (jan_15 + usec_per_day + 8 * usec_per_hour), body)"
    by simp
  ultimately show ?thesis
    by blast
qed

theorem parse_text_lower_cased_witness:
  "parse_reminder_from_text ascii_russian jan_15 napomni = Inr (None, napomni) \<and>
   parse_reminder_from_text ascii_russian jan_15 say_in_5_minutes =
     parse_reminder_from_text ascii_russian jan_15 (napomni @ ascii '' '' @ cherez_5_minut)"
proof -
  have none: "\<forall>p \<in> set patterns. re_search ascii_russian (snd p) (u_lower ascii_russian napomni) = None"
    by (simp add: patterns_def re_search_def re_cherez_minut_def re_cherez_chasov_def
        re_v_vremya_def re_zavtra_v_def napomni_def ascii_russian_def)
  have low: "u_lower ascii_russian say_in_5_minutes = napomni @ ascii '' '' @ cherez_5_minut"
    "u_lower ascii_russian (napomni @ ascii '' '' @ cherez_5_minut) =
       napomni @ ascii '' '' @ cherez_5_minut"
    by (simp_all add: say_in_5_minutes_def napomni_def cherez_5_minut_def ascii_def
        ascii_russian_def)
  have "re_search ascii_russian re_cherez_minut (napomni @ ascii '' '' @ cherez_5_minut) \<noteq> None"
    by (simp add: re_search_def re_cherez_minut_def napomni_def cherez_5_minut_def ascii_def
        ascii_russian_def)
  then have some: "\<exists>p \<in> set patterns.
      re_search ascii_russian (snd p) (u_lower ascii_russian (napomni @ ascii '' '' @ cherez_5_minut))
        \<noteq> None"
    by (simp add: patterns_def low)
  from parse_text_lower_cased [of ascii_russian napomni jan_15, THEN conjunct1, THEN mp, OF none]
    parse_text_lower_cased [of ascii_russian "napomni @ ascii '' '' @ cherez_5_minut" jan_15,
      THEN conjunct2, THEN mp, OF some, THEN conjunct2, THEN spec, of say_in_5_minutes]
  show ?thesis
    by (simp add: low)
qed

lemma parse_say_tomorrow_after_9:
  assumes "9 * usec_per_hour < now mod usec_per_day" and "now + usec_per_day \<le> datetime_max"
  shows "parse_reminder_from_text ascii_russian now say_tomorrow_at_9 =
           Inr (Some (day_start now + usec_per_day + 9 * usec_per_hour),
                napomni @ ascii '' '' @ zavtra @ ascii ''  '' @ pozvonit)"
proof -
  let ?mo = "\<lparr>span_start = 15, span_end = 21, groups = [[0x39], [0x30, 0x30]]\<rparr>"
  have today: "today_at now 9 0 = day_start now + 9 * usec_per_hour"
    by (simp add: today_at_def)
  have "day_start now + now mod usec_per_day = now"
    by (simp add: day_start_def)
  with assms(1) have past: "today_at now 9 0 < now"
    unfolding today by linarith
  have "parse_reminder_from_text ascii_russian now say_tomorrow_at_9 =
      Inr (Some (if today_at now (py_int ascii_russian [0x39]) (py_int ascii_russian [0x30, 0x30])
                    < now
                 then today_at now (py_int ascii_russian [0x39])
                        (py_int ascii_russian [0x30, 0x30]) + usec_per_day
                 else today_at now (py_int ascii_russian [0x39])
                        (py_int ascii_russian [0x30, 0x30])),
           py_strip ascii_russian (re_sub ascii_russian re_v_vremya
             (u_lower ascii_russian say_tomorrow_at_9)))"
    using assms(2) by (intro parse_v_vremya [where mo = ?mo])
      (simp_all add: lower_say_tomorrow_at_9 search_say_tomorrow_at_9 py_int_examples)
  with past today show ?thesis
    by (simp add: py_int_examples lower_say_tomorrow_at_9 strip_say_tomorrow_at_9)
qed

lemma parse_say_tomorrow_at_8:
  "parse_reminder_from_text ascii_russian (jan_15 + 8 * usec_per_hour) say_tomorrow_at_9 =
     Inr (Some (jan_15 + 9 * usec_per_hour),
          napomni @ ascii '' '' @ zavtra @ ascii ''  '' @ pozvonit)"
proof -
  let ?now = "jan_15 + 8 * usec_per_hour"
  let ?mo = "\<lparr>span_start = 15, span_end = 21, groups = [[0x39], [0x30, 0x30]]\<rparr>"
  have start: "day_start ?now = jan_15"
    by (simp add: day_start_def jan_15_def usec_per_day_def usec_per_hour_def)
  have range: "?now + usec_per_day \<le> datetime_max"
    by (simp add: jan_15_def datetime_max_def usec_per_day_def usec_per_hour_def)
  have "parse_reminder_from_text ascii_russian ?now say_tomorrow_at_9 =
      Inr (Some (if today_at ?now (py_int ascii_russian [0x39]) (py_int ascii_russian [0x30, 0x30])
                    < ?now
                 then today_at ?now (py_int ascii_russian [0x39])
                        (py_int ascii_russian [0x30, 0x30]) + usec_per_day
                 else today_at ?now (py_int ascii_russian [0x39])
                        (py_int ascii_russian [0x30, 0x30])),
           py_strip ascii_russian (re_sub ascii_russian re_v_vremya
             (u_lower ascii_russian say_tomorrow_at_9)))"
    using range by (intro parse_v_vremya [where mo = ?mo])
      (simp_all add: lower_say_tomorrow_at_9 search_say_tomorrow_at_9 py_int_examples)
  moreover have today: "today_at ?now 9 0 = jan_15 + 9 * usec_per_hour"
    by (simp add: today_at_def start)
  moreover have "\<not> today_at ?now 9 0 < ?now"
    unfolding today by (simp add: usec_per_hour_def)
  ultimately show ?thesis
    by (simp add: py_int_examples lower_say_tomorrow_at_9 strip_say_tomorrow_at_9)
qed

text \<open>
  C2 at the command of its example, \<^verbatim>\<open>"napomni zavtra v 9:00 pozvonit"\<close>. The code does not
  give it tomorrow's 09:00 whatever the time of day. Said at 08:00 of 2024-01-15 it gets
  09:00 of the same day, a day earlier than "tomorrow at 09:00"; said at 10:00 of that day
  it gets 09:00 of 2024-01-16. The rule \<^verbatim>\<open>'v_vremya'\<close>, which stands before \<^verbatim>\<open>'zavtra_v'\<close> in
  the dictionary, has answered: it finds \<^verbatim>\<open>"v 9:00"\<close> inside the command and moves the time
  to the next day only when it has passed today (see the section on the order of the
  rules). The text returned is \<^verbatim>\<open>"napomni zavtra  pozvonit"\<close>, not \<^verbatim>\<open>"pozvonit"\<close>.
\<close>

theorem parse_tomorrow_time_of_day:
  "parse_reminder_from_text ascii_russian (jan_15 + 8 * usec_per_hour) say_tomorrow_at_9 =
     Inr (Some (jan_15 + 9 * usec_per_hour),
          napomni @ ascii '' '' @ zavtra @ ascii ''  '' @ pozvonit) \<and>
   jan_15 + 9 * usec_per_hour < jan_15 + usec_per_day + 9 * usec_per_hour \<and>
   parse_reminder_from_text ascii_russian (jan_15 + 10 * usec_per_hour) say_tomorrow_at_9 =
     Inr (Some (jan_15 + usec_per_day + 9 * usec_per_hour),
          napomni @ ascii '' '' @ zavtra @ ascii ''  '' @ pozvonit) \<and>
   napomni @ ascii '' '' @ zavtra @ ascii ''  '' @ pozvonit \<noteq> pozvonit"
proof -
  let ?at_10 = "jan_15 + 10 * usec_per_hour"
  have later: "9 * usec_per_hour < ?at_10 mod usec_per_day"
    and range: "?at_10 + usec_per_day \<le> datetime_max"
    by (simp_all add: jan_15_def datetime_max_def usec_per_day_def usec_per_hour_def)
  have start: "day_start ?at_10 = jan_15"
    by (simp add: day_start_def jan_15_def usec_per_day_def usec_per_hour_def)
  have "parse_reminder_from_text ascii_russian ?at_10 say_tomorrow_at_9 =
      Inr (Some (jan_15 + usec_per_day + 9 * usec_per_hour),
           napomni @ ascii '' '' @ zavtra @ ascii ''  '' @ pozvonit)"
    using parse_say_tomorrow_after_9 [OF later range] unfolding start .
  moreover have "napomni @ ascii '' '' @ zavtra @ ascii ''  '' @ pozvonit \<noteq> pozvonit"
    by (simp add: napomni_def pozvonit_def)
  moreover have "jan_15 + 9 * usec_per_hour < jan_15 + usec_per_day + 9 * usec_per_hour"
    by (simp add: usec_per_day_def)
  ultimately show ?thesis
    using parse_say_tomorrow_at_8 by simp
qed

section \<open>The order of the rules\<close>

text \<open>
  The expression of \<^verbatim>\<open>'zavtra_v'\<close> ends with the whole expression of \<^verbatim>\<open>'v_vremya'\<close>, and
  \<^verbatim>\<open>re.search\<close> looks for a match at every position. So wherever the rule \<^verbatim>\<open>'zavtra_v'\<close>
  matches, the rule \<^verbatim>\<open>'v_vremya'\<close>, which the loop tries first, matches too, and taking the
  rule \<^verbatim>\<open>'zavtra_v'\<close> out of the dictionary changes no result of the parser.
\<close>

lemma re_greedy_Some:
  "re_greedy try_rest n = Some (k, r) \<Longrightarrow> 0 < k \<and> k \<le> n \<and> try_rest k = Some r"
  by (induction n) (auto split: option.splits)

lemma re_search_from_None_iff:
  "re_search_from U re i s = None \<longleftrightarrow> (\<forall>k. re_match U re (drop k s) = None)"
proof (induction s arbitrary: i)
  case Nil
  show ?case by (auto split: option.splits)
next
  case (Cons x xs)
  have "(\<forall>k. re_match U re (drop k (x # xs)) = None) \<longleftrightarrow>
      re_match U re (x # xs) = None \<and> (\<forall>k. re_match U re (drop k xs) = None)"
  proof
    assume all: "\<forall>k. re_match U re (drop k (x # xs)) = None"
    from all [rule_format, of 0] have "re_match U re (x # xs) = None" by simp
    moreover have "re_match U re (drop k xs) = None" for k
      using all [rule_format, of "Suc k"] by simp
    ultimately show "re_match U re (x # xs) = None \<and> (\<forall>k. re_match U re (drop k xs) = None)"
      by blast
  next
    assume both: "re_match U re (x # xs) = None \<and> (\<forall>k. re_match U re (drop k xs) = None)"
    show "\<forall>k. re_match U re (drop k (x # xs)) = None"
    proof
      fix k
      show "re_match U re (drop k (x # xs)) = None"
        using both by (cases k) auto
    qed
  qed
  with Cons.IH [of "Suc i"] show ?case
    by (auto split: option.splits)
qed

lemma re_match_zavtra_v:
  assumes "re_match U re_zavtra_v s \<noteq> None"
  shows "\<exists>k. re_match U re_v_vremya (drop k s) \<noteq> None"
proof -
  from assms obtain s1 where s: "s = cyr_ze # cyr_a # cyr_ve # cyr_te # cyr_er # cyr_a # s1"
    and rest: "re_match U (Spaces # re_v_vremya) s1 \<noteq> None"
    by (auto simp: re_zavtra_v_def re_v_vremya_def split: list.splits if_splits)
  from rest obtain k found
    where "re_greedy (\<lambda>k. re_match U re_v_vremya (drop k s1))
             (length (takeWhile (u_isspace U) s1)) = Some (k, found)"
    by (auto split: option.splits)
  then have "re_match U re_v_vremya (drop k s1) = Some found"
    by (auto dest: re_greedy_Some)
  moreover from s have "drop 6 s = s1"
    by simp
  ultimately have "re_match U re_v_vremya (drop k (drop 6 s)) \<noteq> None"
    by simp
  then have "re_match U re_v_vremya (drop (k + 6) s) \<noteq> None"
    by simp
  then show ?thesis
    by (rule exI)
qed

lemma zavtra_v_shadowed:
  assumes "re_search U re_zavtra_v s \<noteq> None"
  shows "re_search U re_v_vremya s \<noteq> None"
proof -
  from assms obtain j where "re_match U re_zavtra_v (drop j s) \<noteq> None"
    by (auto simp: re_search_def re_search_from_None_iff)
  then obtain k where "re_match U re_v_vremya (drop k (drop j s)) \<noteq> None"
    using re_match_zavtra_v by blast
  then have "re_match U re_v_vremya (drop (k + j) s) \<noteq> None"
    by simp
  then have "\<not> (\<forall>i. re_match U re_v_vremya (drop i s) = None)"
    by (intro notI) (drule spec [of _ "k + j"], simp)
  then show ?thesis
    by (simp add: re_search_def re_search_from_None_iff)
qed

lemma zavtra_v_never_fires:
  "parse_reminder_from_text U now text_in =
     parse_loop U now text_in (u_lower U text_in)
       [(Cherez_minut, re_cherez_minut), (Cherez_chasov, re_cherez_chasov),
        (V_vremya, re_v_vremya)]"
proof (cases "re_search U re_zavtra_v (u_lower U text_in)")
  case None
  then show ?thesis
    by (simp add: parse_reminder_from_text_def patterns_def split: option.splits)
next
  case (Some mo)
  then have "re_search U re_v_vremya (u_lower U text_in) \<noteq> None"
    by (intro zavtra_v_shadowed) simp
  then show ?thesis
    by (auto simp: parse_reminder_from_text_def patterns_def split: option.splits)
qed

theorem zavtra_v_never_fires_witness:
  "parse_reminder_from_text ascii_russian jan_15 say_tomorrow_at_9 =
     parse_loop ascii_russian jan_15 say_tomorrow_at_9 (u_lower ascii_russian say_tomorrow_at_9)
       [(Cherez_minut, re_cherez_minut), (Cherez_chasov, re_cherez_chasov),
        (V_vremya, re_v_vremya)]"
  by (rule zavtra_v_never_fires)

section \<open>Properties of the creation of a reminder\<close>

lemma add_reminder_rows:
  "add_reminder m created fault body t = (result, m') \<Longrightarrow>
     rows m' = rows m \<or>
     rows m' = rows m @ [\<lparr>rem_id = Suc (last_id m), rem_text = body, rem_datetime = t,
                          created_at = created, notified = 0\<rparr>]"
  by (auto simp: add_reminder_def Let_def split: if_splits)

lemma handle_reminder_parsed:
  assumes "parse_reminder_from_text U now text_in = Inr (Some t, body)"
  shows "handle_reminder U m now created fault text_in =
           (if body \<noteq> []
            then Inr (snd (fst (add_reminder m created fault body t)),
                      snd (add_reminder m created fault body t))
            else Inr (Time_not_understood, m))"
  using assms by (simp add: handle_reminder_def split: prod.splits)

lemma handle_reminder_no_empty_body:
  assumes "handle_reminder U m now created fault text_in = Inr (msg, m')"
    and "r \<in> set (rows m')"
  shows "r \<in> set (rows m) \<or> rem_text r \<noteq> []"
proof (cases "parse_reminder_from_text U now text_in")
  case (Inl e)
  with assms(1) show ?thesis by (simp add: handle_reminder_def)
next
  case (Inr parsed)
  obtain remind_time body where parsed: "parsed = (remind_time, body)"
    by (cases parsed) auto
  show ?thesis
  proof (cases "remind_time \<noteq> None \<and> body \<noteq> []")
    case False
    with Inr parsed assms show ?thesis
      by (auto simp: handle_reminder_def split: option.splits if_splits)
  next
    case True
    then obtain t where t: "remind_time = Some t" by auto
    obtain result m1 where added: "add_reminder m created fault body t = (result, m1)"
      by (cases "add_reminder m created fault body t") auto
    with Inr parsed t True assms(1) have "m' = m1"
      by (auto simp: handle_reminder_def split: prod.splits)
    with add_reminder_rows [OF added] assms(2) True show ?thesis
      by auto
  qed
qed

text \<open>The two commands "in 5 minutes" of the examples, evaluated.\<close>

lemma lower_in_5_minutes:
  "u_lower ascii_russian say_in_5_minutes = napomni @ ascii '' '' @ cherez_5_minut"
  "u_lower ascii_russian cherez_5_minut = cherez_5_minut"
  by (simp_all add: say_in_5_minutes_def napomni_def cherez_5_minut_def ascii_def
      ascii_russian_def)

lemma search_in_5_minutes:
  "re_search ascii_russian re_cherez_minut (napomni @ ascii '' '' @ cherez_5_minut) =
     Some \<lparr>span_start = 8, span_end = 21, groups = [[0x35]]\<rparr>"
  "re_search ascii_russian re_cherez_minut cherez_5_minut =
     Some \<lparr>span_start = 0, span_end = 13, groups = [[0x35]]\<rparr>"
  by (simp_all add: re_search_def re_cherez_minut_def napomni_def cherez_5_minut_def ascii_def
      ascii_russian_def)

lemma strip_in_5_minutes:
  "py_strip ascii_russian (re_sub ascii_russian re_cherez_minut
     (napomni @ ascii '' '' @ cherez_5_minut)) = napomni"
  "py_strip ascii_russian (re_sub ascii_russian re_cherez_minut cherez_5_minut) = []"
  by (simp_all add: re_sub_def search_in_5_minutes py_strip_def)
     (simp_all add: napomni_def cherez_5_minut_def ascii_def ascii_russian_def)

lemma parse_in_5_minutes:
  assumes "now + 5 * usec_per_minute \<le> datetime_max"
  shows "parse_reminder_from_text ascii_russian now say_in_5_minutes =
           Inr (Some (now + 5 * usec_per_minute), napomni)"
    and "parse_reminder_from_text ascii_russian now cherez_5_minut =
           Inr (Some (now + 5 * usec_per_minute), [])"
  using assms
  by (simp_all add: parse_reminder_from_text_def patterns_def lower_in_5_minutes
      search_in_5_minutes strip_in_5_minutes remind_time_of_def group_def py_int_examples
      timedelta_add_def)

text \<open>
  Two commands at which the text stored is not what the specification says.
  \<^verbatim>\<open>"Napomni cherez 5 minut"\<close>, said at 08:00 of 2024-01-15, is
  stored with the text \<^verbatim>\<open>"napomni"\<close>, which is not the command without its time span: the
  capital letter is gone. \<^verbatim>\<open>"cherez 5 minut"\<close> leaves the empty text, and then nothing is
  stored: the store is as before and the answer is "could not understand the time".
\<close>

theorem handle_reminder_counterexample:
  "handle_reminder ascii_russian \<lparr>enabled = True, rows = [], last_id = 0\<rparr>
     (jan_15 + 8 * usec_per_hour) (jan_15 + 8 * usec_per_hour) No_fault say_in_5_minutes =
     Inr (Reminder_created (jan_15 + 8 * usec_per_hour + 5 * usec_per_minute) napomni,
          \<lparr>enabled = True,
           rows = [\<lparr>rem_id = 1, rem_text = napomni,
                    rem_datetime = jan_15 + 8 * usec_per_hour + 5 * usec_per_minute,
                    created_at = jan_15 + 8 * usec_per_hour, notified = 0\<rparr>],
           last_id = 1\<rparr>) \<and>
   napomni \<noteq> take 7 say_in_5_minutes \<and>
   parse_reminder_from_text ascii_russian (jan_15 + 8 * usec_per_hour) cherez_5_minut =
     Inr (Some (jan_15 + 8 * usec_per_hour + 5 * usec_per_minute), []) \<and>
   handle_reminder ascii_russian \<lparr>enabled = True, rows = [], last_id = 0\<rparr>
     (jan_15 + 8 * usec_per_hour) (jan_15 + 8 * usec_per_hour) No_fault cherez_5_minut =
     Inr (Time_not_understood, \<lparr>enabled = True, rows = [], last_id = 0\<rparr>)"
proof -
  let ?now = "jan_15 + 8 * usec_per_hour"
  have range: "?now + 5 * usec_per_minute \<le> datetime_max"
    by (simp add: jan_15_def datetime_max_def usec_per_day_def usec_per_hour_def
        usec_per_minute_def)
  have "napomni \<noteq> take 7 say_in_5_minutes" and "napomni \<noteq> []"
    by (simp_all add: napomni_def say_in_5_minutes_def)
  then show ?thesis
    using parse_in_5_minutes [OF range]
    by (simp add: handle_reminder_def add_reminder_def)
qed

text \<open>
  C9 as the source has it. When the parser has found a time, one rule of the dictionary
  has answered: the first, in the order of the dictionary, whose expression matches the
  lower-cased command. The text the parser hands on is the lower-cased command without
  the span of the leftmost match of that rule, stripped at both ends. If that text is not
  empty, \<^verbatim>\<open>_handle_reminder\<close> passes it to \<^verbatim>\<open>add_reminder\<close>, which on an enabled manager
  without a database failure stores a new row with this text and \<^verbatim>\<open>notified = 0\<close>. If the
  text is empty, nothing is stored and the answer is "could not understand the time".
  Whatever the outcome, every row of the table afterwards was there before or has a text
  that is not empty.
\<close>

theorem handle_reminder_stored_text:
  assumes "parse_reminder_from_text U now text_in = Inr (Some t, body)"
  shows "(\<exists>i mo. i < length patterns \<and>
            (\<forall>j < i. re_search U (snd (patterns ! j)) (u_lower U text_in) = None) \<and>
            re_search U (snd (patterns ! i)) (u_lower U text_in) = Some mo \<and>
            body = py_strip U (take (span_start mo) (u_lower U text_in) @
                               drop (span_end mo) (u_lower U text_in))) \<and>
         (body \<noteq> [] \<and> enabled m \<and> fault = No_fault \<longrightarrow>
            handle_reminder U m now created fault text_in =
              Inr (Reminder_created t body,
                   m\<lparr>rows := rows m @
                        [\<lparr>rem_id = Suc (last_id m), rem_text = body, rem_datetime = t,
                          created_at = created, notified = 0\<rparr>],
                      last_id := Suc (last_id m)\<rparr>)) \<and>
         (body = [] \<longrightarrow>
            handle_reminder U m now created fault text_in = Inr (Time_not_understood, m)) \<and>
         (\<forall>msg m'. handle_reminder U m now created fault text_in = Inr (msg, m') \<longrightarrow>
            (\<forall>r \<in> set (rows m'). r \<in> set (rows m) \<or> rem_text r \<noteq> []))"
proof (intro conjI impI allI ballI)
  let ?lowered = "u_lower U text_in"
  let ?found = "\<lambda>p. re_search U (snd p) ?lowered \<noteq> None"
  have "find ?found patterns \<noteq> None"
  proof
    assume "find ?found patterns = None"
    then have "parse_reminder_from_text U now text_in = Inr (None, text_in)"
      by (simp add: parse_reminder_from_text_def parse_loop_find)
    with assms show False by simp
  qed
  then obtain p where p: "find ?found patterns = Some p"
    by auto
  then obtain i where i: "i < length patterns" "?found (patterns ! i)" "p = patterns ! i"
    "\<forall>j < i. \<not> ?found (patterns ! j)"
    unfolding find_Some_iff by blast
  from i(2) obtain mo where mo: "re_search U (snd (patterns ! i)) ?lowered = Some mo"
    by auto
  from p assms have "body = py_strip U (re_sub U (snd p) ?lowered)"
    by (auto simp: parse_reminder_from_text_def parse_loop_find split: sum.splits)
  with mo i(3) have "body = py_strip U (take (span_start mo) ?lowered @
      drop (span_end mo) ?lowered)"
    by (simp add: re_sub_def)
  with i(1,4) mo
  show "\<exists>i mo. i < length patterns \<and>
      (\<forall>j < i. re_search U (snd (patterns ! j)) (u_lower U text_in) = None) \<and>
      re_search U (snd (patterns ! i)) (u_lower U text_in) = Some mo \<and>
      body = py_strip U (take (span_start mo) (u_lower U text_in) @
                         drop (span_end mo) (u_lower U text_in))"
    by auto
next
  assume "body \<noteq> [] \<and> enabled m \<and> fault = No_fault"
  then show "handle_reminder U m now created fault text_in =
      Inr (Reminder_created t body,
           m\<lparr>rows := rows m @
                [\<lparr>rem_id = Suc (last_id m), rem_text = body, rem_datetime = t,
                  created_at = created, notified = 0\<rparr>],
              last_id := Suc (last_id m)\<rparr>)"
    by (simp add: handle_reminder_parsed [OF assms] add_reminder_def)
next
  assume "body = []"
  then show "handle_reminder U m now created fault text_in = Inr (Time_not_understood, m)"
    by (simp add: handle_reminder_parsed [OF assms])
next
  fix msg m' r
  assume "handle_reminder U m now created fault text_in = Inr (msg, m')"
    and "r \<in> set (rows m')"
  then show "r \<in> set (rows m) \<or> rem_text r \<noteq> []"
    by (rule handle_reminder_no_empty_body)
qed

theorem handle_reminder_stored_text_witness:
  "handle_reminder ascii_russian \<lparr>enabled = True, rows = [], last_id = 0\<rparr> jan_15 jan_15
     No_fault say_in_5_minutes =
     Inr (Reminder_created (jan_15 + 5 * usec_per_minute) napomni,
          \<lparr>enabled = True,
           rows = [\<lparr>rem_id = Suc 0, rem_text = napomni,
                    rem_datetime = jan_15 + 5 * usec_per_minute,
                    created_at = jan_15, notified = 0\<rparr>],
           last_id = Suc 0\<rparr>) \<and>
   handle_reminder ascii_russian \<lparr>enabled = True, rows = [], last_id = 0\<rparr> jan_15 jan_15
     No_fault cherez_5_minut =
     Inr (Time_not_understood, \<lparr>enabled = True, rows = [], last_id = 0\<rparr>)"
proof -
  let ?m = "\<lparr>enabled = True, rows = [], last_id = 0\<rparr>"
  have range: "jan_15 + 5 * usec_per_minute \<le> datetime_max"
    by (simp add: jan_15_def datetime_max_def usec_per_day_def usec_per_minute_def)
  have word: "napomni \<noteq> [] \<and> enabled ?m \<and> No_fault = No_fault"
    by (simp add: napomni_def)
  from handle_reminder_stored_text [OF parse_in_5_minutes(1) [OF range], of ?m No_fault jan_15,
      THEN conjunct2, THEN conjunct1, THEN mp, OF word]
    handle_reminder_stored_text [OF parse_in_5_minutes(2) [OF range], of ?m No_fault jan_15,
      THEN conjunct2, THEN conjunct2, THEN conjunct1]
  show ?thesis
    by simp
qed

end
